theory Spec2Isabelle
  imports Complex_Main
begin

section \<open>Python values\<close>

text \<open>
  The pipeline works on what \<^verbatim>\<open>response.json()\<close> returns: Python values built from
  \<^verbatim>\<open>None\<close>, booleans, integers, floats, strings, lists and dictionaries. A float is
  carried by its exact value (a finite float is a rational number); a dictionary by its
  items, each key once.
\<close>

datatype json =
    JNull
  | JBool bool
  | JInt int
  | JFloat rat
  | JStr string
  | JArr "json list"
  | JObj "(string \<times> json) list"

text \<open>The exceptions the code can meet. The first five are the allow-list of \<^verbatim>\<open>retry\<close>.\<close>

datatype exn =
    ConnectTimeout
  | HTTPError
  | ReadTimeout
  | Timeout
  | ConnectionError
  | OtherRequestError
  | JSONDecodeError
  | KeyError
  | TypeError
  | AttributeError

definition retryable :: "exn \<Rightarrow> bool" where
  "retryable e = (e = ConnectTimeout \<or> e = HTTPError \<or> e = ReadTimeout \<or> e = Timeout
     \<or> e = ConnectionError)"

text \<open>Sequencing of steps that may raise: the first exception ends the block.\<close>

definition try_bind :: "exn + 'a \<Rightarrow> ('a \<Rightarrow> exn + 'b) \<Rightarrow> exn + 'b" where
  "try_bind r f = (case r of Inl e \<Rightarrow> Inl e | Inr v \<Rightarrow> f v)"

text \<open>\<^verbatim>\<open>if data:\<close> -- Python truthiness.\<close>

fun truthy :: "json \<Rightarrow> bool" where
  "truthy JNull = False"
| "truthy (JBool b) = b"
| "truthy (JInt i) = (i \<noteq> 0)"
| "truthy (JFloat r) = (r \<noteq> 0)"
| "truthy (JStr s) = (s \<noteq> [])"
| "truthy (JArr xs) = (xs \<noteq> [])"
| "truthy (JObj kvs) = (kvs \<noteq> [])"

text \<open>\<^verbatim>\<open>v[k]\<close> with a string key: only a dictionary accepts it.\<close>

fun subscript :: "json \<Rightarrow> string \<Rightarrow> exn + json" where
  "subscript (JObj kvs) k = (case map_of kvs k of None \<Rightarrow> Inl KeyError | Some v \<Rightarrow> Inr v)"
| "subscript v k = Inl TypeError"

text \<open>\<^verbatim>\<open>v.get(k, default)\<close>: only a dictionary has the method.\<close>

fun py_get :: "json \<Rightarrow> string \<Rightarrow> json \<Rightarrow> exn + json" where
  "py_get (JObj kvs) k dflt = Inr (case map_of kvs k of None \<Rightarrow> dflt | Some v \<Rightarrow> v)"
| "py_get v k dflt = Inl AttributeError"

text \<open>\<^verbatim>\<open>for x in v\<close>: a list gives its elements, a dictionary its keys, a string its
  characters; nothing else can be iterated.\<close>

fun py_iter :: "json \<Rightarrow> exn + json list" where
  "py_iter (JArr xs) = Inr xs"
| "py_iter (JObj kvs) = Inr (map (\<lambda>kv. JStr (fst kv)) kvs)"
| "py_iter (JStr s) = Inr (map (\<lambda>c. JStr [c]) s)"
| "py_iter v = Inl TypeError"

text \<open>\<^verbatim>\<open>s.replace(' ', '_')\<close> and \<^verbatim>\<open>s.upper()\<close> (on ASCII letters).\<close>

definition replace_spaces :: "string \<Rightarrow> string" where
  "replace_spaces s = map (\<lambda>c. if c = CHR '' '' then CHR ''_'' else c) s"

fun str_replace :: "json \<Rightarrow> exn + string" where
  "str_replace (JStr s) = Inr (replace_spaces s)"
| "str_replace v = Inl AttributeError"

definition upper_char :: "char \<Rightarrow> char" where
  "upper_char c =
     (case map_of (zip ''abcdefghijklmnopqrstuvwxyz'' ''ABCDEFGHIJKLMNOPQRSTUVWXYZ'') c of
        None \<Rightarrow> c
      | Some u \<Rightarrow> u)"

definition upper :: "string \<Rightarrow> string" where
  "upper s = map upper_char s"

text \<open>
  Membership in a Python set goes through \<^verbatim>\<open>hash\<close> and \<^verbatim>\<open>==\<close>: a list or a dictionary
  cannot be hashed (TypeError), and \<^verbatim>\<open>True == 1 == 1.0\<close>. \<open>canon\<close> picks one
  representative of each class of equal values, so that a set of Python values is a
  set of representatives.
\<close>

fun hashable :: "json \<Rightarrow> bool" where
  "hashable (JArr xs) = False"
| "hashable (JObj kvs) = False"
| "hashable v = True"

fun canon :: "json \<Rightarrow> json" where
  "canon (JBool b) = JInt (if b then 1 else 0)"
| "canon (JFloat r) = (if of_int \<lfloor>r\<rfloor> = r then JInt \<lfloor>r\<rfloor> else JFloat r)"
| "canon v = v"

section \<open>The extractor and its world\<close>

datatype reply = Raises exn | Response nat "json option"

datatype log_msg =
    RetryWarning nat nat exn int
  | AllRetriesFailed nat
  | HeaderWritten string
  | FetchFailed exn
  | ExceptionType exn
  | ExceptionMessage exn
  | StackTrace exn
  | Wrote string string json
  | SkippedDuplicate string json string
  | ExtractError string exn
  | FetchingForecast string
  | FetchingHistory string string

text \<open>
  What the program cannot decide: the reply of the API to the \<open>n\<close>-th request of the run
  (counted from 0) when it goes to a given URL; the date \<open>i\<close> days before today, as
  \<^verbatim>\<open>strftime('%Y-%m-%d')\<close> prints it; and \<^verbatim>\<open>str(v)\<close> for a value that is neither a
  string nor \<^verbatim>\<open>None\<close>.
\<close>

record env =
  net :: "string \<Rightarrow> nat \<Rightarrow> reply"
  days_ago :: "nat \<Rightarrow> string"
  py_str :: "json \<Rightarrow> string"

text \<open>
  The fields of \<^verbatim>\<open>WeatherExtractor\<close> (\<open>api_key\<close>, \<open>cities\<close>, \<open>city_records\<close>; the
  header is the constant below) and the world around it: the files of the data
  directory, each a list of CSV rows, a row a list of cells; the log; the delays slept;
  the number of requests sent.

  A file is known by the text of its path, and its content is the list of rows that the
  \<^verbatim>\<open>csv\<close> module writes and reads back (the quoting of cells is below this model); an
  empty list is a file of size 0. Opening, reading and writing a file always succeed
  here. A ledger is a Python set of pairs, kept as the set of their representatives
  under \<open>canon\<close>.
\<close>

record state =
  api_key :: string
  cities :: "string list"
  city_records :: "string \<rightharpoonup> (json \<times> json) set"
  files :: "string \<rightharpoonup> string list list"
  log :: "log_msg list"
  slept :: "int list"
  requests_made :: nat

definition header :: "string list" where
  "header = [''Date'', ''Location'', ''Country'', ''Min_Temp'', ''Max_Temp'', ''Humidity'',
     ''Air_Quality'', ''Type'']"

text \<open>\<^verbatim>\<open>__init__\<close>: the key and the cities of the configuration, an empty ledger, and the
  data directory as it is found.\<close>

definition init :: "string \<Rightarrow> string list \<Rightarrow> (string \<rightharpoonup> string list list) \<Rightarrow> state" where
  "init key cs fs =
     \<lparr>api_key = key, cities = cs, city_records = Map.empty, files = fs,
      log = [], slept = [], requests_made = 0\<rparr>"

definition logging :: "log_msg \<Rightarrow> state \<Rightarrow> state" where
  "logging m s = s\<lparr>log := log s @ [m]\<rparr>"

definition sleep :: "int \<Rightarrow> state \<Rightarrow> state" where
  "sleep d s = s\<lparr>slept := slept s @ [d]\<rparr>"

subsection \<open>retry\<close>

fun retry_loop ::
  "nat \<Rightarrow> bool \<Rightarrow> (state \<Rightarrow> (exn + json) \<times> state) \<Rightarrow> nat list \<Rightarrow> int \<Rightarrow> state
     \<Rightarrow> (exn + json) \<times> state" where
  "retry_loop no_of_retries backoff func [] delay s =
     (Inr JNull, logging (AllRetriesFailed no_of_retries) s)"
| "retry_loop no_of_retries backoff func (attempt # rest) delay s =
     (case func s of
        (Inr v, s') \<Rightarrow> (Inr v, s')
      | (Inl e, s') \<Rightarrow>
          if retryable e
          then retry_loop no_of_retries backoff func rest (if backoff then delay * 2 else delay)
                 (sleep delay (logging (RetryWarning attempt no_of_retries e delay) s'))
          else (Inl e, s'))"

definition retry ::
  "nat \<Rightarrow> int \<Rightarrow> bool \<Rightarrow> (state \<Rightarrow> (exn + json) \<times> state) \<Rightarrow> state \<Rightarrow> (exn + json) \<times> state" where
  "retry no_of_retries initial_delay backoff func s =
     retry_loop no_of_retries backoff func [1..<no_of_retries + 1] initial_delay s"

subsection \<open>exception\_handling, create\_csv\_for\_city, fetch\_data\<close>

definition exception_handling :: "exn \<Rightarrow> state \<Rightarrow> state" where
  "exception_handling e s =
     logging (StackTrace e) (logging (ExceptionMessage e) (logging (ExceptionType e) s))"

definition csv_path :: "string \<Rightarrow> string" where
  "csv_path city = ''weather_data/'' @ replace_spaces city @ ''.csv''"

definition create_csv_for_city :: "string \<Rightarrow> state \<Rightarrow> string \<times> state" where
  "create_csv_for_city city s =
     (let file_path = csv_path city in
      if (case files s file_path of None \<Rightarrow> True | Some rows \<Rightarrow> rows = [])
      then (file_path,
            logging (HeaderWritten city) (s\<lparr>files := (files s)(file_path \<mapsto> [header])\<rparr>))
      else (file_path, s))"

definition http_get :: "env \<Rightarrow> string \<Rightarrow> state \<Rightarrow> exn + json" where
  "http_get E url s =
     (case net E url (requests_made s) of
        Raises e \<Rightarrow> Inl e
      | Response status body \<Rightarrow>
          if 400 \<le> status \<and> status < 600 then Inl HTTPError
          else (case body of None \<Rightarrow> Inl JSONDecodeError | Some j \<Rightarrow> Inr j))"

definition fetch_data_body :: "env \<Rightarrow> string \<Rightarrow> state \<Rightarrow> (exn + json) \<times> state" where
  "fetch_data_body E url s =
     (let s1 = s\<lparr>requests_made := requests_made s + 1\<rparr> in
      case http_get E url s of
        Inr j \<Rightarrow> (Inr j, s1)
      | Inl e \<Rightarrow> (Inr JNull, exception_handling e (logging (FetchFailed e) s1)))"

definition fetch_data :: "env \<Rightarrow> string \<Rightarrow> state \<Rightarrow> (exn + json) \<times> state" where
  "fetch_data E url s = retry 3 2 True (fetch_data_body E url) s"

subsection \<open>The CSV reader and writer\<close>

text \<open>
  \<^verbatim>\<open>csv.DictReader\<close>: the first row gives the field names, blank rows are left out, a
  field beyond the end of a short row is \<^verbatim>\<open>None\<close>, and of two fields of one name the
  later wins. \<open>dict_row fieldnames r k\<close> is \<^verbatim>\<open>row.get(k)\<close>.
\<close>

definition dict_row :: "string list \<Rightarrow> string list \<Rightarrow> string \<Rightarrow> string option" where
  "dict_row fieldnames r k =
     (if k \<in> set (drop (length r) fieldnames) then None
      else map_of (rev (zip fieldnames r)) k)"

definition DictReader :: "string list list \<Rightarrow> (string \<Rightarrow> string option) list" where
  "DictReader rows =
     (case rows of
        [] \<Rightarrow> []
      | fieldnames # rest \<Rightarrow> map (dict_row fieldnames) (filter (\<lambda>r. r \<noteq> []) rest))"

text \<open>\<^verbatim>\<open>all(key)\<close> for \<^verbatim>\<open>key = (row.get('Date'), row.get('Type'))\<close>.\<close>

fun str_truthy :: "string option \<Rightarrow> bool" where
  "str_truthy None = False"
| "str_truthy (Some s) = (s \<noteq> [])"

definition all_key :: "string option \<times> string option \<Rightarrow> bool" where
  "all_key key = (str_truthy (fst key) \<and> str_truthy (snd key))"

fun opt_json :: "string option \<Rightarrow> json" where
  "opt_json None = JNull"
| "opt_json (Some s) = JStr s"

definition key_json :: "string option \<times> string option \<Rightarrow> json \<times> json" where
  "key_json key = (opt_json (fst key), opt_json (snd key))"

text \<open>The loop of lines 85--88, over the rows of the reader.\<close>

fun read_records ::
  "(string \<Rightarrow> string option) list \<Rightarrow> (json \<times> json) set \<Rightarrow> (json \<times> json) set" where
  "read_records [] records = records"
| "read_records (row # rest) records =
     (let key = (row ''Date'', row ''Type'') in
      if all_key key then read_records rest (insert (key_json key) records)
      else read_records rest records)"

text \<open>
  \<^verbatim>\<open>csv.DictWriter(file, fieldnames=self.header).writerow(row)\<close>, the file opened for
  appending: one cell for each field of the header, \<^verbatim>\<open>None\<close> written as the empty cell,
  a string as it is, anything else through \<^verbatim>\<open>str\<close>.
\<close>

definition csv_cell :: "env \<Rightarrow> json \<Rightarrow> string" where
  "csv_cell E v = (case v of JNull \<Rightarrow> [] | JStr s \<Rightarrow> s | _ \<Rightarrow> py_str E v)"

definition writerow :: "env \<Rightarrow> (string \<times> json) list \<Rightarrow> string list" where
  "writerow E row =
     map (\<lambda>k. case map_of row k of None \<Rightarrow> [] | Some v \<Rightarrow> csv_cell E v) header"

definition append_row :: "string \<Rightarrow> string list \<Rightarrow> state \<Rightarrow> state" where
  "append_row file_path cells s =
     s\<lparr>files := (files s)(file_path \<mapsto>
          (case files s file_path of None \<Rightarrow> [] | Some rows \<Rightarrow> rows) @ [cells])\<rparr>"

subsection \<open>extract\_and\_write\<close>

text \<open>Line 100: \<^verbatim>\<open>data.get('current', {}).get('air_quality', {}).get('co', 'N/A')\<close>.\<close>

definition air_quality :: "json \<Rightarrow> exn + json" where
  "air_quality data =
     try_bind (py_get data ''current'' (JObj [])) (\<lambda>c.
     try_bind (py_get c ''air_quality'' (JObj [])) (\<lambda>a.
     py_get a ''co'' (JStr ''N/A'')))"

text \<open>Lines 92--102: the row of one forecast day, its fields evaluated in order.\<close>

definition build_row :: "json \<Rightarrow> string \<Rightarrow> json \<Rightarrow> exn + (string \<times> json) list" where
  "build_row data mode day_data =
     try_bind (subscript day_data ''day'') (\<lambda>day.
     try_bind (subscript day_data ''date'') (\<lambda>date.
     try_bind (try_bind (subscript data ''location'') (\<lambda>l. subscript l ''name'')) (\<lambda>name.
     try_bind (try_bind (subscript data ''location'') (\<lambda>l. subscript l ''country'')) (\<lambda>country.
     try_bind (subscript day ''mintemp_c'') (\<lambda>mintemp_c.
     try_bind (subscript day ''maxtemp_c'') (\<lambda>maxtemp_c.
     try_bind (subscript day ''avghumidity'') (\<lambda>avghumidity.
     try_bind (air_quality data) (\<lambda>co.
     Inr [(''Date'', date), (''Location'', name), (''Country'', country),
          (''Min_Temp'', mintemp_c), (''Max_Temp'', maxtemp_c), (''Humidity'', avghumidity),
          (''Air_Quality'', co), (''Type'', JStr (upper mode))]))))))))"

text \<open>
  Lines 104--105: \<^verbatim>\<open>key = (row['Date'], row['Type'])\<close>, and what \<^verbatim>\<open>key not in\<close> and
  \<^verbatim>\<open>.add(key)\<close> do with it.
\<close>

definition key_of_row :: "(string \<times> json) list \<Rightarrow> exn + json \<times> json" where
  "key_of_row row =
     try_bind (subscript (JObj row) ''Date'') (\<lambda>d.
     try_bind (subscript (JObj row) ''Type'') (\<lambda>t. Inr (d, t)))"

definition hashable_key :: "json \<times> json \<Rightarrow> bool" where
  "hashable_key key = (hashable (fst key) \<and> hashable (snd key))"

definition canon_key :: "json \<times> json \<Rightarrow> json \<times> json" where
  "canon_key key = (canon (fst key), canon (snd key))"

text \<open>
  Lines 92--112, one turn of the loop. Every exception of a turn is raised before the
  turn changes anything, so a turn gives either the exception or the next state.
\<close>

definition extract_and_write_day ::
  "env \<Rightarrow> string \<Rightarrow> string \<Rightarrow> json \<Rightarrow> string \<Rightarrow> json \<Rightarrow> state \<Rightarrow> exn + state" where
  "extract_and_write_day E file_path city data mode day_data s =
     try_bind (build_row data mode day_data) (\<lambda>row.
     try_bind (key_of_row row) (\<lambda>key.
       case city_records s city of
         None \<Rightarrow> Inl KeyError
       | Some records \<Rightarrow>
           if hashable_key key then
             (if canon_key key \<notin> records
              then Inr ((logging (Wrote (upper mode) city (fst key))
                           (append_row file_path (writerow E row) s))
                     \<lparr>city_records := (city_records s)(city \<mapsto> insert (canon_key key) records)\<rparr>)
              else Inr (logging (SkippedDuplicate city (fst key) (upper mode)) s))
           else Inl TypeError))"

fun extract_and_write_days ::
  "env \<Rightarrow> string \<Rightarrow> string \<Rightarrow> json \<Rightarrow> string \<Rightarrow> json list \<Rightarrow> state \<Rightarrow> exn option \<times> state" where
  "extract_and_write_days E file_path city data mode [] s = (None, s)"
| "extract_and_write_days E file_path city data mode (day_data # rest) s =
     (case extract_and_write_day E file_path city data mode day_data s of
        Inl e \<Rightarrow> (Some e, s)
      | Inr s' \<Rightarrow> extract_and_write_days E file_path city data mode rest s')"

text \<open>Lines 80--88: the first touch of a city in a run reads its file into the ledger.\<close>

definition load_city_records :: "string \<Rightarrow> string \<Rightarrow> state \<Rightarrow> state" where
  "load_city_records city file_path s =
     (case city_records s city of
        Some records \<Rightarrow> s
      | None \<Rightarrow>
          s\<lparr>city_records := (city_records s)(city \<mapsto>
               (case files s file_path of
                  None \<Rightarrow> {}
                | Some rows \<Rightarrow> read_records (DictReader rows) {}))\<rparr>)"

text \<open>Lines 113--115, the handler of \<^verbatim>\<open>extract_and_write\<close>.\<close>

definition extract_failed :: "string \<Rightarrow> exn \<Rightarrow> state \<Rightarrow> state" where
  "extract_failed mode e s = exception_handling e (logging (ExtractError mode e) s)"

text \<open>Line 77 and lines 90--91: the city and the forecast days of a payload.\<close>

definition city_of :: "json \<Rightarrow> exn + string" where
  "city_of data =
     try_bind (try_bind (subscript data ''location'') (\<lambda>l. subscript l ''name'')) str_replace"

definition forecast_days_of :: "json \<Rightarrow> exn + json list" where
  "forecast_days_of data =
     try_bind (try_bind (subscript data ''forecast'') (\<lambda>f. subscript f ''forecastday'')) py_iter"

definition extract_and_write :: "env \<Rightarrow> json \<Rightarrow> string \<Rightarrow> state \<Rightarrow> state" where
  "extract_and_write E data mode s =
     (case city_of data of
        Inl e \<Rightarrow> extract_failed mode e s
      | Inr city \<Rightarrow>
          (case create_csv_for_city city s of
             (file_path, s1) \<Rightarrow>
               (let s2 = load_city_records city file_path s1 in
                case forecast_days_of data of
                  Inl e \<Rightarrow> extract_failed mode e s2
                | Inr forecast_days \<Rightarrow>
                    (case extract_and_write_days E file_path city data mode forecast_days s2 of
                       (Some e, s3) \<Rightarrow> extract_failed mode e s3
                     | (None, s3) \<Rightarrow> s3))))"

subsection \<open>The URLs\<close>

definition hex_digit :: "nat \<Rightarrow> char" where
  "hex_digit n = ''0123456789ABCDEF'' ! n"

definition always_safe :: "char \<Rightarrow> bool" where
  "always_safe c =
     (c \<in> set ''ABCDEFGHIJKLMNOPQRSTUVWXYZabcdefghijklmnopqrstuvwxyz0123456789_.-~'')"

definition quote_plus :: "string \<Rightarrow> string" where
  "quote_plus s =
     concat (map (\<lambda>c. if always_safe c then [c]
                       else if c = CHR '' '' then ''+''
                       else [CHR ''%'', hex_digit ((of_char c :: nat) div 16),
                             hex_digit ((of_char c :: nat) mod 16)]) s)"

fun urlencode :: "(string \<times> string) list \<Rightarrow> string" where
  "urlencode [] = []"
| "urlencode [(k, v)] = quote_plus k @ ''='' @ quote_plus v"
| "urlencode ((k, v) # params) = quote_plus k @ ''='' @ quote_plus v @ ''&'' @ urlencode params"

definition BASE_WEATHER_API_URL :: string where
  "BASE_WEATHER_API_URL = ''http://api.weatherapi.com/v1/''"

definition build_forecast_url :: "state \<Rightarrow> string \<Rightarrow> string" where
  "build_forecast_url s city =
     BASE_WEATHER_API_URL @ ''forecast.json?key='' @ api_key s @ ''&'' @
     urlencode [(''q'', city), (''days'', ''3''), (''aqi'', ''yes''), (''alerts'', ''no'')]"

definition build_history_url :: "state \<Rightarrow> string \<Rightarrow> string \<Rightarrow> string" where
  "build_history_url s city date_str =
     BASE_WEATHER_API_URL @ ''history.json?key='' @ api_key s @ ''&'' @
     urlencode [(''q'', city), (''dt'', date_str)]"

subsection \<open>The two passes\<close>

text \<open>
  The loops of \<^verbatim>\<open>run_forecast_etl\<close> and \<^verbatim>\<open>run_history_etl\<close>. Neither catches anything:
  an exception that left \<^verbatim>\<open>fetch_data\<close> would end the pass (\<open>Some e\<close>).
\<close>

fun run_forecast_cities :: "env \<Rightarrow> string list \<Rightarrow> state \<Rightarrow> exn option \<times> state" where
  "run_forecast_cities E [] s = (None, s)"
| "run_forecast_cities E (city # rest) s =
     (let url = build_forecast_url s city in
      case fetch_data E url (logging (FetchingForecast city) s) of
        (Inl e, s') \<Rightarrow> (Some e, s')
      | (Inr data, s') \<Rightarrow>
          run_forecast_cities E rest
            (if truthy data then extract_and_write E data ''forecast'' s' else s'))"

definition run_forecast_etl :: "env \<Rightarrow> state \<Rightarrow> exn option \<times> state" where
  "run_forecast_etl E s = run_forecast_cities E (cities s) s"

fun run_history_cities :: "env \<Rightarrow> string \<Rightarrow> string list \<Rightarrow> state \<Rightarrow> exn option \<times> state" where
  "run_history_cities E history_date [] s = (None, s)"
| "run_history_cities E history_date (city # rest) s =
     (let url = build_history_url s city history_date in
      case fetch_data E url (logging (FetchingHistory city history_date) s) of
        (Inl e, s') \<Rightarrow> (Some e, s')
      | (Inr data, s') \<Rightarrow>
          run_history_cities E history_date rest
            (if truthy data then extract_and_write E data ''history'' s' else s'))"

fun run_history_days :: "env \<Rightarrow> nat list \<Rightarrow> state \<Rightarrow> exn option \<times> state" where
  "run_history_days E [] s = (None, s)"
| "run_history_days E (i # rest) s =
     (case run_history_cities E (days_ago E i) (cities s) s of
        (Some e, s') \<Rightarrow> (Some e, s')
      | (None, s') \<Rightarrow> run_history_days E rest s')"

definition run_history_etl :: "env \<Rightarrow> state \<Rightarrow> exn option \<times> state" where
  "run_history_etl E s = run_history_days E [1..<4] s"

definition main :: "env \<Rightarrow> state \<Rightarrow> exn option \<times> state" where
  "main E s =
     (case run_forecast_etl E s of
        (Some e, s') \<Rightarrow> (Some e, s')
      | (None, s') \<Rightarrow> run_history_etl E s')"

section \<open>Notions used in the statements\<close>

text \<open>A reply that makes a fetch fail: an exception of the transport, an error status,
  or a body that is not JSON.\<close>

definition failed :: "reply \<Rightarrow> bool" where
  "failed r =
     (case r of
        Raises e \<Rightarrow> True
      | Response status body \<Rightarrow> (400 \<le> status \<and> status < 600) \<or> body = None)"

text \<open>The value at \<^verbatim>\<open>current.air_quality.co\<close> of a payload, when it is there.\<close>

definition lookup :: "json \<Rightarrow> string \<Rightarrow> json option" where
  "lookup v k = (case v of JObj kvs \<Rightarrow> map_of kvs k | _ \<Rightarrow> None)"

definition air_quality_co :: "json \<Rightarrow> json option" where
  "air_quality_co data =
     (case lookup data ''current'' of
        None \<Rightarrow> None
      | Some c \<Rightarrow> (case lookup c ''air_quality'' of None \<Rightarrow> None | Some a \<Rightarrow> lookup a ''co''))"

text \<open>The files only grow: every file that was there is still there, with rows added at
  its end and none changed or taken away.\<close>

definition grown ::
  "(string \<rightharpoonup> string list list) \<Rightarrow> (string \<rightharpoonup> string list list) \<Rightarrow> bool" where
  "grown F F' = (\<forall>p rows. F p = Some rows \<longrightarrow> (\<exists>new. F' p = Some (rows @ new)))"

text \<open>The (Date, Type) pairs of the rows of a file, as the reader gives them; a file that
  is empty or starts with the header of the pipeline.\<close>

definition file_keys :: "string list list \<Rightarrow> (string option \<times> string option) list" where
  "file_keys rows = map (\<lambda>r. (r ''Date'', r ''Type'')) (DictReader rows)"

definition has_header :: "string list list \<Rightarrow> bool" where
  "has_header rows = (rows = [] \<or> hd rows = header)"

text \<open>A forecast day whose date, if it has one, is a string that is not empty; a payload
  all of whose forecast days are so.\<close>

definition real_date :: "json \<Rightarrow> bool" where
  "real_date day_data =
     (case subscript day_data ''date'' of
        Inl e \<Rightarrow> True
      | Inr date \<Rightarrow> (case date of JStr d \<Rightarrow> d \<noteq> [] | _ \<Rightarrow> False))"

definition real_dates :: "json \<Rightarrow> bool" where
  "real_dates data =
     (case forecast_days_of data of Inl e \<Rightarrow> True | Inr days \<Rightarrow> list_all real_date days)"

text \<open>A sequence of calls of \<^verbatim>\<open>extract_and_write\<close> on one extractor.\<close>

fun run_calls :: "env \<Rightarrow> (json \<times> string) list \<Rightarrow> state \<Rightarrow> state" where
  "run_calls E [] s = s"
| "run_calls E ((data, mode) # rest) s = run_calls E rest (extract_and_write E data mode s)"

text \<open>
  The invariant of the file at path \<open>p\<close>: it starts with the header and no two of its rows
  have the same pair; and a ledger that belongs to it is the ledger of a city name
  without spaces, the file is there, and every pair of the file with a date and a type
  is in the ledger.
\<close>

definition ledger_ok :: "string \<Rightarrow> state \<Rightarrow> bool" where
  "ledger_ok p s =
     ((\<forall>rows. files s p = Some rows \<longrightarrow> has_header rows \<and> distinct (file_keys rows)) \<and>
      (\<forall>c L. city_records s c = Some L \<and> csv_path c = p \<longrightarrow>
         replace_spaces c = c \<and>
         (\<exists>rows. files s p = Some rows \<and> rows \<noteq> [] \<and>
            (\<forall>d t. (Some d, Some t) \<in> set (file_keys rows) \<and> d \<noteq> [] \<and> t \<noteq> []
                \<longrightarrow> (JStr d, JStr t) \<in> L))))"

text \<open>What \<^verbatim>\<open>fetch_data\<close> returns for a reply: the payload, or \<^verbatim>\<open>None\<close> when the fetch
  fails.\<close>

definition payload_of :: "reply \<Rightarrow> json" where
  "payload_of r =
     (case r of
        Raises e \<Rightarrow> JNull
      | Response status body \<Rightarrow>
          if 400 \<le> status \<and> status < 600 then JNull
          else (case body of None \<Rightarrow> JNull | Some j \<Rightarrow> j))"

text \<open>
  A run as a list of units of work, each a URL to fetch, the mode of the extraction and
  the line logged before the fetch; and the payloads the units of a run get, the first of
  them from the \<open>n\<close>-th request.
\<close>

fun run_units :: "env \<Rightarrow> (string \<times> string \<times> log_msg) list \<Rightarrow> state \<Rightarrow> state" where
  "run_units E [] s = s"
| "run_units E ((url, mode, msg) # us) s =
     (case fetch_data E url (logging msg s) of
        (Inl e, s') \<Rightarrow> s'
      | (Inr data, s') \<Rightarrow>
          run_units E us (if truthy data then extract_and_write E data mode s' else s'))"

fun unit_calls :: "env \<Rightarrow> nat \<Rightarrow> (string \<times> string \<times> log_msg) list \<Rightarrow> (json \<times> string) list" where
  "unit_calls E n [] = []"
| "unit_calls E n ((url, mode, msg) # us) =
     (payload_of (net E url n), mode) # unit_calls E (Suc n) us"

text \<open>The units of the forecast pass, of the history pass for one date, and of \<^verbatim>\<open>main\<close>.\<close>

definition forecast_units :: "state \<Rightarrow> string list \<Rightarrow> (string \<times> string \<times> log_msg) list" where
  "forecast_units s cs =
     map (\<lambda>city. (build_forecast_url s city, ''forecast'', FetchingForecast city)) cs"

definition history_units ::
  "state \<Rightarrow> string \<Rightarrow> string list \<Rightarrow> (string \<times> string \<times> log_msg) list" where
  "history_units s history_date cs =
     map (\<lambda>city. (build_history_url s city history_date, ''history'',
                   FetchingHistory city history_date)) cs"

definition units :: "env \<Rightarrow> state \<Rightarrow> (string \<times> string \<times> log_msg) list" where
  "units E s =
     forecast_units s (cities s) @
     concat (map (\<lambda>i. history_units s (days_ago E i) (cities s)) [1..<4])"

text \<open>The keys of the forecast days a call gets to: those before the first day from which
  no row can be built.\<close>

fun built_keys :: "json \<Rightarrow> string \<Rightarrow> json list \<Rightarrow> (json \<times> json) list" where
  "built_keys data mode [] = []"
| "built_keys data mode (day_data # rest) =
     (case try_bind (build_row data mode day_data) key_of_row of
        Inl e \<Rightarrow> []
      | Inr key \<Rightarrow> key # built_keys data mode rest)"

text \<open>
  Three notions for the comparison of two runs. In the first run every file starts with
  the header and every key of a ledger is the pair of a row of its file (\<open>ledger_sound\<close>).
  A payload is \<open>covered\<close> by files when the file of its city is there and has, with
  date and type, the row of each key the call gets to. In the second run the files are
  the files \<open>F\<close> the first run left, and a ledger holds every pair of its file that has a
  date and a type (\<open>ledger_complete\<close>).
\<close>

definition ledger_sound :: "state \<Rightarrow> bool" where
  "ledger_sound s =
     ((\<forall>p rows. files s p = Some rows \<longrightarrow> has_header rows) \<and>
      (\<forall>c L. city_records s c = Some L \<longrightarrow>
         (\<exists>rows. files s (csv_path c) = Some rows \<and> rows \<noteq> [] \<and>
            (\<forall>k\<in>L. \<exists>d t. k = (JStr d, JStr t) \<and> (Some d, Some t) \<in> set (file_keys rows)))))"

definition covered :: "(string \<rightharpoonup> string list list) \<Rightarrow> json \<Rightarrow> string \<Rightarrow> bool" where
  "covered F data mode =
     (\<forall>city. city_of data = Inr city \<longrightarrow>
        (\<exists>rows. F (csv_path city) = Some rows \<and> rows \<noteq> [] \<and>
           (\<forall>days. forecast_days_of data = Inr days \<longrightarrow>
              (\<forall>k \<in> set (built_keys data mode days).
                 \<exists>d t. k = (JStr d, JStr t) \<and> d \<noteq> [] \<and> t \<noteq> [] \<and>
                   (Some d, Some t) \<in> set (file_keys rows)))))"

definition ledger_complete :: "(string \<rightharpoonup> string list list) \<Rightarrow> state \<Rightarrow> bool" where
  "ledger_complete F s =
     (files s = F \<and>
      (\<forall>c L. city_records s c = Some L \<longrightarrow>
         (\<exists>rows. F (csv_path c) = Some rows \<and>
            (\<forall>d t. (Some d, Some t) \<in> set (file_keys rows) \<and> d \<noteq> [] \<and> t \<noteq> []
                \<longrightarrow> (JStr d, JStr t) \<in> L))))"

section \<open>Sample inputs\<close>

text \<open>A payload of the forecast endpoint for London, one entry for each date given, with
  no \<^verbatim>\<open>current\<close> block; and what \<^verbatim>\<open>str\<close> prints for its numbers.\<close>

definition sample_day :: "string \<Rightarrow> json" where
  "sample_day d =
     JObj [(''date'', JStr d),
           (''day'', JObj [(''mintemp_c'', JInt 7), (''maxtemp_c'', JInt 12),
                           (''avghumidity'', JInt 81)])]"

definition london :: "string list \<Rightarrow> json" where
  "london dates =
     JObj [(''location'', JObj [(''name'', JStr ''London''), (''country'', JStr ''UK'')]),
           (''forecast'', JObj [(''forecastday'', JArr (map sample_day dates))])]"

definition sample_str :: "json \<Rightarrow> string" where
  "sample_str v =
     (if v = JInt 7 then ''7'' else if v = JInt 12 then ''12'' else if v = JInt 81 then ''81''
      else ''0.4'')"

definition sample_days_ago :: "nat \<Rightarrow> string" where
  "sample_days_ago i =
     (if i = 1 then ''2024-01-09'' else if i = 2 then ''2024-01-08'' else ''2024-01-07'')"

definition three_days :: "string list" where
  "three_days = [''2024-01-10'', ''2024-01-11'', ''2024-01-12'']"

text \<open>Three APIs: one that answers at once, one whose first two replies are connect
  timeouts, one that is down.\<close>

definition steady_env :: env where
  "steady_env =
     \<lparr>net = (\<lambda>url n. Response 200 (Some (london three_days))),
      days_ago = sample_days_ago, py_str = sample_str\<rparr>"

definition flaky_env :: env where
  "flaky_env =
     \<lparr>net = (\<lambda>url n. if n < 2 then Raises ConnectTimeout
                       else Response 200 (Some (london three_days))),
      days_ago = sample_days_ago, py_str = sample_str\<rparr>"

definition down_env :: env where
  "down_env =
     \<lparr>net = (\<lambda>url n. Raises ConnectionError),
      days_ago = sample_days_ago, py_str = sample_str\<rparr>"

definition london_state :: state where
  "london_state = init ''KEY'' [''London''] Map.empty"

definition london_csv :: string where
  "london_csv = ''weather_data/London.csv''"

text \<open>The row of \<open>london\<close> for a date, as the writer prints it.\<close>

definition sample_row :: "string \<Rightarrow> string \<Rightarrow> string list" where
  "sample_row d t = [d, ''London'', ''UK'', ''7'', ''12'', ''81'', ''N/A'', t]"

text \<open>A file of London with a complete row, a row whose date is empty and a short row
  that has no \<^verbatim>\<open>Type\<close>.\<close>

definition ragged_file :: "string list list" where
  "ragged_file =
     [header, sample_row ''2024-01-10'' ''FORECAST'', sample_row [] ''FORECAST'',
      [''2024-01-12'', ''London'']]"

text \<open>A wrapped function that raises a connect timeout at every call, counting its calls.\<close>

definition always_timeout :: "state \<Rightarrow> (exn + json) \<times> state" where
  "always_timeout s = (Inl ConnectTimeout, s\<lparr>requests_made := requests_made s + 1\<rparr>)"

text \<open>The state after a first call for London, and a payload in which a date comes twice.\<close>

definition london_filled :: state where
  "london_filled = extract_and_write steady_env (london three_days) ''forecast'' london_state"

definition repeated_days :: "string list" where
  "repeated_days = [''2024-01-10'', ''2024-01-11'', ''2024-01-10'']"

text \<open>The state in which the loop of a first call for London starts: the file created,
  the ledger read from it.\<close>

definition london_opened :: state where
  "london_opened =
     load_city_records ''London'' london_csv (snd (create_csv_for_city ''London'' london_state))"

text \<open>A file of London with one row, the same with the date of the row empty, and two
  calls, a forecast and a history.\<close>

definition dated_file :: "string list list" where
  "dated_file = [header, sample_row ''2024-01-10'' ''FORECAST'']"

definition undated_file :: "string list list" where
  "undated_file = [header, sample_row [] ''FORECAST'']"

definition two_calls :: "(json \<times> string) list" where
  "two_calls = [(london three_days, ''forecast''), (london repeated_days, ''history'')]"

text \<open>An API whose payloads have one forecast day, with the empty date.\<close>

definition undated_env :: env where
  "undated_env =
     \<lparr>net = (\<lambda>url n. Response 200 (Some (london [[]]))),
      days_ago = sample_days_ago, py_str = sample_str\<rparr>"

section \<open>What the helpers leave alone\<close>

lemma logging_simps [simp]:
  "files (logging m s) = files s"
  "city_records (logging m s) = city_records s"
  "requests_made (logging m s) = requests_made s"
  "api_key (logging m s) = api_key s"
  "cities (logging m s) = cities s"
  "slept (logging m s) = slept s"
  "log (logging m s) = log s @ [m]"
  by (simp_all add: logging_def)

lemma sleep_simps [simp]:
  "files (sleep d s) = files s"
  "city_records (sleep d s) = city_records s"
  "requests_made (sleep d s) = requests_made s"
  "api_key (sleep d s) = api_key s"
  "cities (sleep d s) = cities s"
  "slept (sleep d s) = slept s @ [d]"
  "log (sleep d s) = log s"
  by (simp_all add: sleep_def)

lemma exception_handling_simps [simp]:
  "files (exception_handling e s) = files s"
  "city_records (exception_handling e s) = city_records s"
  "requests_made (exception_handling e s) = requests_made s"
  "api_key (exception_handling e s) = api_key s"
  "cities (exception_handling e s) = cities s"
  "slept (exception_handling e s) = slept s"
  by (simp_all add: exception_handling_def)

section \<open>The retry wrapper\<close>

text \<open>
  A wrapped function that fails with an allow-listed error at every call: the wrapper
  gives \<^verbatim>\<open>None\<close>, and it has slept once for every attempt of the loop, the last one
  included, the \<open>k\<close>-th time for \<open>initial_delay * 2 ^ (k - 1)\<close> seconds under backoff.
\<close>

lemma retry_loop_all_fail:
  assumes "\<And>t. \<exists>e. retryable e \<and> fst (func t) = Inl e \<and> slept (snd (func t)) = slept t"
  shows "fst (retry_loop N b func atts d s) = Inr JNull \<and>
         slept (snd (retry_loop N b func atts d s)) =
           slept s @ map (\<lambda>k. if b then d * 2 ^ k else d) [0..<length atts]"
proof (induction atts arbitrary: d s)
  case Nil
  then show ?case by simp
next
  case (Cons a atts)
  obtain e where e: "retryable e" "fst (func s) = Inl e" "slept (snd (func s)) = slept s"
    using assms by blast
  obtain s' where s': "func s = (Inl e, s')" using e(2) by (cases "func s") auto
  have sl: "slept s' = slept s" using e(3) s' by simp
  have m: "map (\<lambda>k. if b then d * 2 ^ k else d) [0..<Suc (length atts)] =
        d # map (\<lambda>k. if b then (d * 2) * 2 ^ k else d) [0..<length atts]"
    by (simp add: upt_conv_Cons map_Suc_upt[symmetric] del: upt_Suc)
  show ?case
    using Cons.IH[of "if b then d * 2 else d" "sleep d (logging (RetryWarning a N e d) s')"]
    by (simp add: s' e(1) sl m del: upt_Suc)
qed

lemma retry_all_fail_sleeps:
  assumes "\<And>t. \<exists>e. retryable e \<and> fst (func t) = Inl e \<and> slept (snd (func t)) = slept t"
  shows "slept (snd (retry N d True func s)) = slept s @ map (\<lambda>k. d * 2 ^ k) [0..<N]"
  using retry_loop_all_fail[OF assms, of N True "[1..<N + 1]" d s]
  by (simp add: retry_def del: upt_Suc)

text \<open>
  C8. The wrapper is to sleep only before a retry, \<open>N - 1\<close> times when all \<open>N\<close> attempts
  fail. With three attempts, an initial delay of 2 and backoff, as \<^verbatim>\<open>fetch_data\<close> is
  decorated, a function that always times out is called three times and the wrapper
  sleeps three times, for 2, 4 and 8 seconds: the last sleep, announced in the log as
  "Retrying in 8 seconds...", is followed by no retry.
\<close>

theorem retry_sleeps_after_last_attempt:
  "fst (retry 3 2 True always_timeout london_state) = Inr JNull \<and>
   requests_made (snd (retry 3 2 True always_timeout london_state)) = 3 \<and>
   slept (snd (retry 3 2 True always_timeout london_state)) = [2, 4, 8]"
  by (simp add: retry_def always_timeout_def london_state_def init_def retryable_def upt_rec)

section \<open>Fetching\<close>

text \<open>
  \<^verbatim>\<open>fetch_data\<close> catches every exception itself (line 70), so the wrapper around it never
  sees one: the first attempt always returns, and \<^verbatim>\<open>fetch_data\<close> is its own body, run
  once.
\<close>

lemma fetch_data_body_result:
  "fetch_data_body E url s =
     (case http_get E url s of
        Inr j \<Rightarrow> (Inr j, s\<lparr>requests_made := requests_made s + 1\<rparr>)
      | Inl e \<Rightarrow> (Inr JNull, exception_handling e
                    (logging (FetchFailed e) (s\<lparr>requests_made := requests_made s + 1\<rparr>))))"
  by (simp add: fetch_data_body_def Let_def split: sum.splits)

lemma fetch_data_is_body: "fetch_data E url s = fetch_data_body E url s"
  by (simp add: fetch_data_def retry_def fetch_data_body_result upt_rec split: sum.splits)

lemma fetch_data_never_raises: "\<exists>v s'. fetch_data E url s = (Inr v, s')"
  by (simp add: fetch_data_is_body fetch_data_body_result split: sum.splits)

lemma fetch_data_frame:
  "files (snd (fetch_data E url s)) = files s"
  "city_records (snd (fetch_data E url s)) = city_records s"
  "api_key (snd (fetch_data E url s)) = api_key s"
  "cities (snd (fetch_data E url s)) = cities s"
  "slept (snd (fetch_data E url s)) = slept s"
  "requests_made (snd (fetch_data E url s)) = requests_made s + 1"
  by (simp_all add: fetch_data_is_body fetch_data_body_result split: sum.splits)

lemma http_get_failed:
  "failed (net E url (requests_made s)) \<Longrightarrow> \<exists>e. http_get E url s = Inl e"
  by (auto simp: failed_def http_get_def split: reply.splits option.splits)

lemma fetch_data_failed:
  assumes "failed (net E url (requests_made s))"
  shows "\<exists>s'. fetch_data E url s = (Inr JNull, s') \<and> files s' = files s \<and>
           city_records s' = city_records s \<and> slept s' = slept s \<and>
           requests_made s' = requests_made s + 1"
proof -
  obtain e where "http_get E url s = Inl e" using http_get_failed[OF assms] by blast
  then show ?thesis by (simp add: fetch_data_is_body fetch_data_body_result)
qed

text \<open>The definitions a run on the sample inputs unfolds.\<close>

lemmas eval_defs =
  fetch_data_def retry_def fetch_data_body_def http_get_def retryable_def upt_rec
  london_state_def init_def london_def three_days_def sample_day_def sample_str_def
  build_forecast_url_def build_history_url_def BASE_WEATHER_API_URL_def quote_plus_def
  always_safe_def hex_digit_def run_forecast_etl_def run_history_etl_def main_def
  extract_and_write_def city_of_def forecast_days_of_def try_bind_def replace_spaces_def
  create_csv_for_city_def csv_path_def load_city_records_def extract_and_write_day_def
  build_row_def air_quality_def key_of_row_def hashable_key_def canon_key_def writerow_def
  csv_cell_def append_row_def upper_def upper_char_def header_def london_csv_def
  sample_row_def DictReader_def dict_row_def all_key_def key_json_def extract_failed_def
  logging_def sleep_def exception_handling_def Let_def

text \<open>
  C1. A fetch whose first two attempts meet a transient network error and whose third
  succeeds is to return the parsed JSON, the extraction then running once. Against an
  API whose first two replies are connect timeouts, \<^verbatim>\<open>fetch_data\<close> returns \<^verbatim>\<open>None\<close>
  after one request and without sleeping, where the API that answers at once gives the
  payload; the forecast pass then writes nothing for London, where it writes three rows
  against the API that answers at once.
\<close>

theorem fetch_data_gives_up_at_first_failure:
  "fst (fetch_data flaky_env (build_forecast_url london_state ''London'') london_state)
     = Inr JNull \<and>
   requests_made
     (snd (fetch_data flaky_env (build_forecast_url london_state ''London'') london_state)) = 1 \<and>
   slept (snd (fetch_data flaky_env (build_forecast_url london_state ''London'') london_state))
     = [] \<and>
   fst (fetch_data steady_env (build_forecast_url london_state ''London'') london_state)
     = Inr (london three_days) \<and>
   files (snd (run_forecast_etl flaky_env london_state)) london_csv = None \<and>
   files (snd (run_forecast_etl steady_env london_state)) london_csv
     = Some [header, sample_row ''2024-01-10'' ''FORECAST'',
             sample_row ''2024-01-11'' ''FORECAST'', sample_row ''2024-01-12'' ''FORECAST'']"
  by (simp add: eval_defs flaky_env_def steady_env_def)

text \<open>
  C2. When each of the three attempts at a URL would fail, \<^verbatim>\<open>fetch_data\<close> returns \<^verbatim>\<open>None\<close>
  and raises nothing, no file and no ledger changes, and the forecast pass goes on with
  the cities after this one.
\<close>

theorem fetch_data_all_attempts_fail:
  assumes "\<forall>k<3. failed (net E url (requests_made s + k))"
  shows "(\<exists>s'. fetch_data E url s = (Inr JNull, s') \<and> files s' = files s \<and>
            city_records s' = city_records s) \<and>
         (url = build_forecast_url s city \<longrightarrow>
            (\<exists>s'. files s' = files s \<and> city_records s' = city_records s \<and>
               run_forecast_cities E (city # rest) s = run_forecast_cities E rest s'))"
proof -
  have f: "failed (net E url (requests_made s))" using assms by force
  have a: "\<exists>s'. fetch_data E url s = (Inr JNull, s') \<and> files s' = files s \<and>
            city_records s' = city_records s"
    using fetch_data_failed[OF f] by blast
  have f': "failed (net E url (requests_made (logging (FetchingForecast city) s)))"
    using f by simp
  obtain s' where s': "fetch_data E url (logging (FetchingForecast city) s) = (Inr JNull, s')"
    "files s' = files s" "city_records s' = city_records s"
    using fetch_data_failed[OF f'] by auto
  have "url = build_forecast_url s city \<Longrightarrow>
        run_forecast_cities E (city # rest) s = run_forecast_cities E rest s'"
    using s'(1) by (simp add: Let_def)
  with a s'(2,3) show ?thesis by blast
qed

theorem fetch_data_all_attempts_fail_witness:
  "(\<exists>s'. fetch_data down_env (build_forecast_url london_state ''London'') london_state
            = (Inr JNull, s')
       \<and> files s' = files london_state \<and> city_records s' = city_records london_state) \<and>
   (\<exists>s'. files s' = files london_state \<and> city_records s' = city_records london_state \<and>
      run_forecast_cities down_env [''London'', ''Paris''] london_state
        = run_forecast_cities down_env [''Paris''] s')"
proof -
  have h: "\<forall>k<3. failed (net down_env (build_forecast_url london_state ''London'')
                      (requests_made london_state + k))"
    by (simp add: down_env_def failed_def)
  show ?thesis
    using fetch_data_all_attempts_fail[OF h, of "''London''" "[''Paris'']"] by simp
qed

section \<open>Rows\<close>

lemma try_bind_Inr:
  "try_bind r f = Inr y \<longleftrightarrow> (\<exists>v. r = Inr v \<and> f v = Inr y)"
  by (cases r) (simp_all add: try_bind_def)

lemma try_bind_simps [simp]:
  "try_bind (Inl e) f = Inl e"
  "try_bind (Inr v) f = f v"
  by (simp_all add: try_bind_def)

lemma build_row_Inr:
  assumes "build_row data mode day_data = Inr row"
  shows "\<exists>date name country mn mx hum co.
           subscript day_data ''date'' = Inr date \<and> air_quality data = Inr co \<and>
           row = [(''Date'', date), (''Location'', name), (''Country'', country),
                  (''Min_Temp'', mn), (''Max_Temp'', mx), (''Humidity'', hum),
                  (''Air_Quality'', co), (''Type'', JStr (upper mode))]"
  using assms unfolding build_row_def try_bind_Inr by blast

lemma py_get_Inr:
  "py_get v k d = Inr y \<Longrightarrow>
     \<exists>kvs. v = JObj kvs \<and> y = (case map_of kvs k of None \<Rightarrow> d | Some w \<Rightarrow> w)"
  by (cases v) auto

lemma air_quality_absent:
  assumes "air_quality_co data = None" and "air_quality data = Inr co"
  shows "co = JStr ''N/A''"
proof -
  from assms(2) obtain c a where c: "py_get data ''current'' (JObj []) = Inr c"
    and a: "py_get c ''air_quality'' (JObj []) = Inr a"
    and co: "py_get a ''co'' (JStr ''N/A'') = Inr co"
    unfolding air_quality_def try_bind_Inr by blast
  from py_get_Inr[OF c] obtain kd where kd: "data = JObj kd"
    "c = (case map_of kd ''current'' of None \<Rightarrow> JObj [] | Some w \<Rightarrow> w)" by blast
  from py_get_Inr[OF a] obtain kc where kc: "c = JObj kc"
    "a = (case map_of kc ''air_quality'' of None \<Rightarrow> JObj [] | Some w \<Rightarrow> w)" by blast
  from py_get_Inr[OF co] obtain ka where ka: "a = JObj ka"
    "co = (case map_of ka ''co'' of None \<Rightarrow> JStr ''N/A'' | Some w \<Rightarrow> w)" by blast
  show ?thesis
    using assms(1) kd kc ka
    by (auto simp: air_quality_co_def lookup_def split: option.splits)
qed

text \<open>
  C7. When the payload has no value at \<^verbatim>\<open>current.air_quality.co\<close>, every row built from
  it has \<^verbatim>\<open>'N/A'\<close> in its field \<^verbatim>\<open>Air_Quality\<close>, and the writer prints \<^verbatim>\<open>N/A\<close> in the
  seventh cell.
\<close>

theorem missing_air_quality_gives_sentinel:
  assumes "air_quality_co data = None" and "build_row data mode day_data = Inr row"
  shows "map_of row ''Air_Quality'' = Some (JStr ''N/A'') \<and> writerow E row ! 6 = ''N/A''"
proof -
  from build_row_Inr[OF assms(2)] obtain date name country mn mx hum co where
    co: "air_quality data = Inr co" and
    row: "row = [(''Date'', date), (''Location'', name), (''Country'', country),
                  (''Min_Temp'', mn), (''Max_Temp'', mx), (''Humidity'', hum),
                  (''Air_Quality'', co), (''Type'', JStr (upper mode))]" by blast
  have "co = JStr ''N/A''" using air_quality_absent[OF assms(1) co] .
  then show ?thesis by (simp add: row writerow_def header_def csv_cell_def)
qed

theorem missing_air_quality_gives_sentinel_witness:
  "air_quality_co (london three_days) = None \<and>
   (\<exists>row. build_row (london three_days) ''forecast'' (sample_day ''2024-01-10'') = Inr row \<and>
      map_of row ''Air_Quality'' = Some (JStr ''N/A'') \<and> writerow steady_env row ! 6 = ''N/A'')"
proof -
  have a: "air_quality_co (london three_days) = None"
    by (simp add: air_quality_co_def lookup_def london_def)
  obtain row where
    r: "build_row (london three_days) ''forecast'' (sample_day ''2024-01-10'') = Inr row"
    by (simp add: build_row_def air_quality_def london_def sample_day_def)
  show ?thesis
    using a r missing_air_quality_gives_sentinel[OF a r, of steady_env] by blast
qed

section \<open>Reading the ledger from the file\<close>

lemma read_records_acc:
  "read_records rows acc =
     acc \<union> {key_json (r ''Date'', r ''Type'') | r.
              r \<in> set rows \<and> all_key (r ''Date'', r ''Type'')}"
  by (induction rows arbitrary: acc) (auto simp: Let_def)

lemma all_key_iff:
  "all_key (a, b) \<longleftrightarrow> (\<exists>d t. a = Some d \<and> b = Some t \<and> d \<noteq> [] \<and> t \<noteq> [])"
  by (cases a; cases b) (auto simp: all_key_def)

lemma read_records_iff:
  "k \<in> read_records rows {} \<longleftrightarrow>
     (\<exists>d t. d \<noteq> [] \<and> t \<noteq> [] \<and> k = (JStr d, JStr t) \<and>
        (\<exists>r \<in> set rows. r ''Date'' = Some d \<and> r ''Type'' = Some t))"
  unfolding read_records_acc
  apply (auto simp: all_key_iff key_json_def)
  subgoal for d t r by (rule exI[of _ r]) simp
  done

text \<open>
  C9. On the first touch of a city, the ledger read from its file holds exactly the
  pairs of the rows whose \<^verbatim>\<open>Date\<close> and \<^verbatim>\<open>Type\<close> are both there and not empty. A row
  that lacks one of them puts nothing in the ledger, so no record is skipped as a
  duplicate on its account.
\<close>

theorem hydration_skips_incomplete_rows:
  assumes "city_records s city = None" and "files s file_path = Some rows"
  shows "\<exists>records. city_records (load_city_records city file_path s) city = Some records \<and>
           (\<forall>k. k \<in> records \<longleftrightarrow>
              (\<exists>d t. d \<noteq> [] \<and> t \<noteq> [] \<and> k = (JStr d, JStr t) \<and>
                 (\<exists>r \<in> set (DictReader rows). r ''Date'' = Some d \<and> r ''Type'' = Some t)))"
  using assms by (simp add: load_city_records_def read_records_iff)

theorem hydration_skips_incomplete_rows_witness:
  "city_records (init ''KEY'' [''London''] [london_csv \<mapsto> ragged_file]) ''London'' = None \<and>
   files (init ''KEY'' [''London''] [london_csv \<mapsto> ragged_file]) london_csv
     = Some ragged_file \<and>
   city_records (load_city_records ''London'' london_csv
       (init ''KEY'' [''London''] [london_csv \<mapsto> ragged_file])) ''London''
     = Some {(JStr ''2024-01-10'', JStr ''FORECAST'')}"
proof -
  let ?s = "init ''KEY'' [''London''] [london_csv \<mapsto> ragged_file]"
  have a: "city_records ?s ''London'' = None" by (simp add: init_def)
  have b: "files ?s london_csv = Some ragged_file" by (simp add: init_def)
  obtain records where
    r: "city_records (load_city_records ''London'' london_csv ?s) ''London'' = Some records"
    and k: "\<And>k. k \<in> records \<longleftrightarrow>
              (\<exists>d t. d \<noteq> [] \<and> t \<noteq> [] \<and> k = (JStr d, JStr t) \<and>
                 (\<exists>r \<in> set (DictReader ragged_file).
                    r ''Date'' = Some d \<and> r ''Type'' = Some t))"
    using hydration_skips_incomplete_rows[OF a b] by blast
  have "\<And>k. k \<in> records \<longleftrightarrow> k = (JStr ''2024-01-10'', JStr ''FORECAST'')"
    unfolding k
    by (auto simp add: ragged_file_def DictReader_def dict_row_def header_def sample_row_def)
  then have "records = {(JStr ''2024-01-10'', JStr ''FORECAST'')}" by blast
  with a b r show ?thesis by simp
qed

section \<open>One call of extract\_and\_write\<close>

lemma grown_refl [simp]: "grown F F"
  by (auto simp: grown_def)

lemma grown_trans: "grown F G \<Longrightarrow> grown G H \<Longrightarrow> grown F H"
  unfolding grown_def by (metis append.assoc)

lemma key_of_built_row:
  assumes "build_row data mode day_data = Inr row"
  shows "\<exists>date. subscript day_data ''date'' = Inr date \<and>
           key_of_row row = Inr (date, JStr (upper mode)) \<and>
           length (writerow E row) = 8 \<and> writerow E row ! 0 = csv_cell E date \<and>
           writerow E row ! 7 = upper mode"
proof -
  from build_row_Inr[OF assms] obtain date name country mn mx hum co where
    d: "subscript day_data ''date'' = Inr date" and
    row: "row = [(''Date'', date), (''Location'', name), (''Country'', country),
                  (''Min_Temp'', mn), (''Max_Temp'', mx), (''Humidity'', hum),
                  (''Air_Quality'', co), (''Type'', JStr (upper mode))]" by blast
  show ?thesis
    using d by (simp add: row key_of_row_def writerow_def header_def csv_cell_def)
qed

lemma extract_and_write_day_built:
  assumes "build_row data mode day_data = Inr row" and "key_of_row row = Inr key"
    and "city_records s city = Some records"
  shows "extract_and_write_day E file_path city data mode day_data s =
     (if hashable_key key then
        (if canon_key key \<notin> records
         then Inr ((logging (Wrote (upper mode) city (fst key))
                      (append_row file_path (writerow E row) s))
                \<lparr>city_records := (city_records s)(city \<mapsto> insert (canon_key key) records)\<rparr>)
         else Inr (logging (SkippedDuplicate city (fst key) (upper mode)) s))
      else Inl TypeError)"
  using assms by (simp add: extract_and_write_day_def)

lemma append_row_simps [simp]:
  "files (append_row p cells s) =
     (files s)(p \<mapsto> (case files s p of None \<Rightarrow> [] | Some rows \<Rightarrow> rows) @ [cells])"
  "city_records (append_row p cells s) = city_records s"
  "requests_made (append_row p cells s) = requests_made s"
  "api_key (append_row p cells s) = api_key s"
  "cities (append_row p cells s) = cities s"
  "slept (append_row p cells s) = slept s"
  by (simp_all add: append_row_def)

text \<open>One turn: what it can change.\<close>

lemma extract_and_write_day_cases:
  assumes "extract_and_write_day E file_path city data mode day_data s = Inr s'"
  obtains (skipped) row key records where
      "build_row data mode day_data = Inr row" "key_of_row row = Inr key"
      "city_records s city = Some records" "hashable_key key" "canon_key key \<in> records"
      "s' = logging (SkippedDuplicate city (fst key) (upper mode)) s"
  | (written) row key records where
      "build_row data mode day_data = Inr row" "key_of_row row = Inr key"
      "city_records s city = Some records" "hashable_key key" "canon_key key \<notin> records"
      "s' = (logging (Wrote (upper mode) city (fst key))
                      (append_row file_path (writerow E row) s))
                \<lparr>city_records := (city_records s)(city \<mapsto> insert (canon_key key) records)\<rparr>"
proof -
  from assms obtain row key where b: "build_row data mode day_data = Inr row"
    and k: "key_of_row row = Inr key"
    and c: "(case city_records s city of
         None \<Rightarrow> Inl KeyError
       | Some records \<Rightarrow>
           if hashable_key key then
             (if canon_key key \<notin> records
              then Inr ((logging (Wrote (upper mode) city (fst key))
                           (append_row file_path (writerow E row) s))
                     \<lparr>city_records := (city_records s)(city \<mapsto> insert (canon_key key) records)\<rparr>)
              else Inr (logging (SkippedDuplicate city (fst key) (upper mode)) s))
           else Inl TypeError) = Inr s'"
    unfolding extract_and_write_day_def try_bind_Inr by blast
  from c obtain records where r: "city_records s city = Some records"
    by (cases "city_records s city") auto
  from c r have h: "hashable_key key" by (auto split: if_splits)
  show ?thesis
  proof (cases "canon_key key \<in> records")
    case True
    with c r h have "s' = logging (SkippedDuplicate city (fst key) (upper mode)) s" by simp
    with b k r h True show ?thesis by (rule skipped)
  next
    case False
    with c r h have "s' = (logging (Wrote (upper mode) city (fst key))
                      (append_row file_path (writerow E row) s))
                \<lparr>city_records := (city_records s)(city \<mapsto> insert (canon_key key) records)\<rparr>"
      by simp
    with b k r h False show ?thesis by (rule written)
  qed
qed

lemma extract_and_write_day_frame:
  assumes "extract_and_write_day E file_path city data mode day_data s = Inr s'"
  shows "api_key s' = api_key s" "cities s' = cities s" "requests_made s' = requests_made s"
    "slept s' = slept s"
    "p \<noteq> file_path \<Longrightarrow> files s' p = files s p"
    "c \<noteq> city \<Longrightarrow> city_records s' c = city_records s c"
    "grown (files s) (files s')"
    "\<exists>L L'. city_records s city = Some L \<and> city_records s' city = Some L' \<and> L \<subseteq> L'"
  using assms by (cases rule: extract_and_write_day_cases; auto simp: grown_def)+

lemma extract_and_write_days_frame:
  assumes "extract_and_write_days E file_path city data mode days s = (r, s')"
  shows "api_key s' = api_key s \<and> cities s' = cities s \<and> requests_made s' = requests_made s \<and>
    slept s' = slept s \<and>
    (\<forall>p. p \<noteq> file_path \<longrightarrow> files s' p = files s p) \<and>
    (\<forall>c. c \<noteq> city \<longrightarrow> city_records s' c = city_records s c) \<and>
    grown (files s) (files s') \<and>
    (\<forall>L. city_records s city = Some L \<longrightarrow> (\<exists>L'. city_records s' city = Some L' \<and> L \<subseteq> L'))"
  using assms
proof (induction days arbitrary: s)
  case Nil
  then show ?case by simp
next
  case (Cons d days)
  show ?case
  proof (cases "extract_and_write_day E file_path city data mode d s")
    case (Inl e)
    with Cons.prems show ?thesis by simp
  next
    case (Inr s1)
    with Cons.prems have "extract_and_write_days E file_path city data mode days s1 = (r, s')"
      by simp
    from Cons.IH[OF this] extract_and_write_day_frame[OF Inr]
    show ?thesis
      by (auto intro: grown_trans) 
  qed
qed


lemma extract_failed_simps [simp]:
  "files (extract_failed mode e s) = files s"
  "city_records (extract_failed mode e s) = city_records s"
  "requests_made (extract_failed mode e s) = requests_made s"
  "api_key (extract_failed mode e s) = api_key s"
  "cities (extract_failed mode e s) = cities s"
  "slept (extract_failed mode e s) = slept s"
  by (simp_all add: extract_failed_def)

lemma create_csv_for_city_simps [simp]:
  "fst (create_csv_for_city city s) = csv_path city"
  "city_records (snd (create_csv_for_city city s)) = city_records s"
  "requests_made (snd (create_csv_for_city city s)) = requests_made s"
  "api_key (snd (create_csv_for_city city s)) = api_key s"
  "cities (snd (create_csv_for_city city s)) = cities s"
  "slept (snd (create_csv_for_city city s)) = slept s"
  by (simp_all add: create_csv_for_city_def Let_def)

lemma create_csv_for_city_files:
  "files (snd (create_csv_for_city city s)) =
     (case files s (csv_path city) of
        None \<Rightarrow> (files s)(csv_path city \<mapsto> [header])
      | Some rows \<Rightarrow> if rows = [] then (files s)(csv_path city \<mapsto> [header]) else files s)"
  by (simp add: create_csv_for_city_def Let_def split: option.splits)

lemma create_csv_for_city_grown: "grown (files s) (files (snd (create_csv_for_city city s)))"
  by (auto simp: create_csv_for_city_files grown_def split: option.splits)

lemma create_csv_for_city_exists:
  "\<exists>rows. files (snd (create_csv_for_city city s)) (csv_path city) = Some rows \<and> rows \<noteq> []"
  by (auto simp: create_csv_for_city_files header_def split: option.splits)

lemma load_city_records_simps [simp]:
  "files (load_city_records city p s) = files s"
  "requests_made (load_city_records city p s) = requests_made s"
  "api_key (load_city_records city p s) = api_key s"
  "cities (load_city_records city p s) = cities s"
  "slept (load_city_records city p s) = slept s"
  "c \<noteq> city \<Longrightarrow> city_records (load_city_records city p s) c = city_records s c"
  by (simp_all add: load_city_records_def split: option.splits)

lemma load_city_records_at:
  "city_records (load_city_records city p s) city =
     (case city_records s city of
        Some records \<Rightarrow> Some records
      | None \<Rightarrow> Some (case files s p of None \<Rightarrow> {}
                                | Some rows \<Rightarrow> read_records (DictReader rows) {}))"
  by (simp add: load_city_records_def split: option.splits)

text \<open>The three ways a call can go.\<close>

lemma extract_and_write_cases:
  obtains (no_city) e where "city_of data = Inl e"
      "extract_and_write E data mode s = extract_failed mode e s"
  | (no_days) city e where "city_of data = Inr city" "forecast_days_of data = Inl e"
      "extract_and_write E data mode s =
         extract_failed mode e
           (load_city_records city (csv_path city) (snd (create_csv_for_city city s)))"
  | (days) city days r s3 where "city_of data = Inr city" "forecast_days_of data = Inr days"
      "extract_and_write_days E (csv_path city) city data mode days
         (load_city_records city (csv_path city) (snd (create_csv_for_city city s))) = (r, s3)"
      "extract_and_write E data mode s =
         (case r of None \<Rightarrow> s3 | Some e \<Rightarrow> extract_failed mode e s3)"
proof (cases "city_of data")
  case (Inl e)
  then show ?thesis by (intro no_city[of e]) (simp_all add: extract_and_write_def)
next
  case city: (Inr city)
  let ?s2 = "load_city_records city (csv_path city) (snd (create_csv_for_city city s))"
  obtain fp s1 where c: "create_csv_for_city city s = (fp, s1)"
    by (cases "create_csv_for_city city s") auto
  have fp: "fp = csv_path city" and s1: "s1 = snd (create_csv_for_city city s)"
    using c create_csv_for_city_simps(1)[of city s] by simp_all
  show ?thesis
  proof (cases "forecast_days_of data")
    case (Inl e)
    have "extract_and_write E data mode s = extract_failed mode e ?s2"
      unfolding extract_and_write_def by (simp add: city Inl c fp[symmetric] s1[symmetric])
    then show ?thesis by (rule no_days[OF city Inl])
  next
    case (Inr days)
    obtain r s3 where
      l: "extract_and_write_days E (csv_path city) city data mode days ?s2 = (r, s3)"
      by (cases "extract_and_write_days E (csv_path city) city data mode days ?s2") auto
    have "extract_and_write E data mode s =
         (case r of None \<Rightarrow> s3 | Some e \<Rightarrow> extract_failed mode e s3)"
      unfolding extract_and_write_def
      using l by (simp add: city Inr c fp[symmetric] s1[symmetric] split: option.splits)
    then show ?thesis by (rule days[OF city Inr l])
  qed
qed

lemma extract_and_write_frame:
  "api_key (extract_and_write E data mode s) = api_key s"
  "cities (extract_and_write E data mode s) = cities s"
  "requests_made (extract_and_write E data mode s) = requests_made s"
  "slept (extract_and_write E data mode s) = slept s"
  by (cases rule: extract_and_write_cases[of data E mode s];
      auto dest!: extract_and_write_days_frame split: option.splits)+

lemma extract_and_write_grown: "grown (files s) (files (extract_and_write E data mode s))"
proof (cases rule: extract_and_write_cases[of data E mode s])
  case (no_city e)
  then show ?thesis by simp
next
  case (no_days city e)
  then show ?thesis by (simp add: create_csv_for_city_grown)
next
  case (days city days r s3)
  have "grown (files s) (files s3)"
    using extract_and_write_days_frame[OF days(3)] create_csv_for_city_grown[of s city]
    by (auto intro: grown_trans)
  with days(4) show ?thesis by (simp split: option.splits)
qed

text \<open>
  C6. A forecast day whose key is already in the ledger of the city is skipped: the turn
  of the loop only logs, and the files are what they were. And a call of
  \<^verbatim>\<open>extract_and_write\<close> only adds rows at the end of files: every file that was there
  keeps all its rows, in their places.
\<close>

theorem duplicates_skipped_and_files_only_grow:
  "(\<forall>row key records.
      build_row data mode day_data = Inr row \<and> key_of_row row = Inr key \<and>
      city_records s city = Some records \<and> hashable_key key \<and> canon_key key \<in> records \<longrightarrow>
      extract_and_write_day E file_path city data mode day_data s
        = Inr (logging (SkippedDuplicate city (fst key) (upper mode)) s) \<and>
      files (logging (SkippedDuplicate city (fst key) (upper mode)) s) = files s) \<and>
   (\<forall>p rows. files s p = Some rows \<longrightarrow>
      (\<exists>new. files (extract_and_write E data mode s) p = Some (rows @ new)))"
proof -
  have "\<forall>p rows. files s p = Some rows \<longrightarrow>
      (\<exists>new. files (extract_and_write E data mode s) p = Some (rows @ new))"
    using extract_and_write_grown[of s E data mode] by (simp add: grown_def)
  then show ?thesis by (simp add: extract_and_write_day_built)
qed

lemma london_filled_files:
  "files london_filled london_csv =
     Some [header, sample_row ''2024-01-10'' ''FORECAST'',
           sample_row ''2024-01-11'' ''FORECAST'', sample_row ''2024-01-12'' ''FORECAST'']"
  by (simp add: london_filled_def steady_env_def eval_defs)

lemma london_filled_records:
  "city_records london_filled ''London'' =
     Some {(JStr ''2024-01-12'', JStr ''FORECAST''), (JStr ''2024-01-11'', JStr ''FORECAST''),
           (JStr ''2024-01-10'', JStr ''FORECAST'')}"
  by (simp add: london_filled_def steady_env_def eval_defs)

theorem duplicates_skipped_and_files_only_grow_witness:
  "extract_and_write_day steady_env london_csv ''London'' (london three_days) ''forecast''
      (sample_day ''2024-01-10'') london_filled
     = Inr (logging (SkippedDuplicate ''London'' (JStr ''2024-01-10'') ''FORECAST'') london_filled) \<and>
   files (logging (SkippedDuplicate ''London'' (JStr ''2024-01-10'') ''FORECAST'') london_filled)
     = files london_filled \<and>
   (\<exists>new. files (extract_and_write steady_env (london [''2024-01-12'', ''2024-01-13''])
                   ''forecast'' london_filled) london_csv
      = Some ([header, sample_row ''2024-01-10'' ''FORECAST'',
               sample_row ''2024-01-11'' ''FORECAST'', sample_row ''2024-01-12'' ''FORECAST'']
              @ new))"
proof -
  obtain row where
    r: "build_row (london three_days) ''forecast'' (sample_day ''2024-01-10'') = Inr row"
    and k: "key_of_row row = Inr (JStr ''2024-01-10'', JStr ''FORECAST'')"
    by (simp add: build_row_def air_quality_def london_def sample_day_def key_of_row_def
        upper_def upper_char_def)
  have h: "hashable_key (JStr ''2024-01-10'', JStr ''FORECAST'')"
    and c: "canon_key (JStr ''2024-01-10'', JStr ''FORECAST'')
              \<in> {(JStr ''2024-01-12'', JStr ''FORECAST''), (JStr ''2024-01-11'', JStr ''FORECAST''),
                  (JStr ''2024-01-10'', JStr ''FORECAST'')}"
    by (simp_all add: hashable_key_def canon_key_def)
  have u: "upper ''forecast'' = ''FORECAST''" by (simp add: upper_def upper_char_def)
  show ?thesis
    using duplicates_skipped_and_files_only_grow[of "london three_days" "''forecast''"
        "sample_day ''2024-01-10''" london_filled "''London''" steady_env london_csv]
      duplicates_skipped_and_files_only_grow[of "london [''2024-01-12'', ''2024-01-13'']"
        "''forecast''" "sample_day ''2024-01-10''" london_filled "''London''" steady_env london_csv]
      r k h c london_filled_records london_filled_files u
    by (metis fst_conv)
qed

section \<open>One date twice in a payload\<close>

lemma extract_and_write_days_Cons_None:
  assumes "extract_and_write_days E fp city data mode (d # ds) s = (None, s')"
  obtains s1 where "extract_and_write_day E fp city data mode d s = Inr s1"
    "extract_and_write_days E fp city data mode ds s1 = (None, s')"
  using assms by (cases "extract_and_write_day E fp city data mode d s") auto

text \<open>
  C10. Within one call the ledger has the key of a forecast day as soon as its turn of
  the loop is over, and keeps it: when a later entry of the list has the same date, its
  turn finds the key and skips it, so only the first of the two is written (and this one
  only when its key was not in the ledger before).
\<close>

theorem second_entry_of_a_date_is_skipped:
  assumes "city_records s city = Some records"
    and "build_row data mode d1 = Inr row1" and "subscript d1 ''date'' = Inr date"
    and "build_row data mode d2 = Inr row2" and "subscript d2 ''date'' = Inr date"
    and "extract_and_write_days E fp city data mode (d1 # mid) s = (None, s')"
  shows "(\<exists>s1 records1.
            extract_and_write_day E fp city data mode d1 s = Inr s1 \<and>
            city_records s1 city = Some records1 \<and>
            canon_key (date, JStr (upper mode)) \<in> records1 \<and>
            (canon_key (date, JStr (upper mode)) \<notin> records \<longrightarrow>
               files s1 = (files s)(fp \<mapsto>
                 (case files s fp of None \<Rightarrow> [] | Some rows \<Rightarrow> rows) @ [writerow E row1]))) \<and>
         extract_and_write_day E fp city data mode d2 s'
           = Inr (logging (SkippedDuplicate city date (upper mode)) s')"
proof -
  let ?key = "(date, JStr (upper mode))"
  have k1: "key_of_row row1 = Inr ?key"
    using key_of_built_row[OF assms(2), of E] assms(3) by auto
  have k2: "key_of_row row2 = Inr ?key"
    using key_of_built_row[OF assms(4), of E] assms(5) by auto
  from assms(6) obtain s1 where
    s1: "extract_and_write_day E fp city data mode d1 s = Inr s1" and
    rest: "extract_and_write_days E fp city data mode mid s1 = (None, s')"
    by (rule extract_and_write_days_Cons_None)
  have step: "(if hashable_key ?key then
        (if canon_key ?key \<notin> records
         then Inr ((logging (Wrote (upper mode) city (fst ?key))
                      (append_row fp (writerow E row1) s))
                \<lparr>city_records := (city_records s)(city \<mapsto> insert (canon_key ?key) records)\<rparr>)
         else Inr (logging (SkippedDuplicate city (fst ?key) (upper mode)) s))
      else Inl TypeError) = Inr s1"
    using extract_and_write_day_built[OF assms(2) k1 assms(1), of E fp] s1 by simp
  then have h: "hashable_key ?key" by (simp split: if_splits)
  obtain records1 where r1: "city_records s1 city = Some records1"
    and in1: "canon_key ?key \<in> records1"
    and w: "canon_key ?key \<notin> records \<Longrightarrow>
               files s1 = (files s)(fp \<mapsto>
                 (case files s fp of None \<Rightarrow> [] | Some rows \<Rightarrow> rows) @ [writerow E row1])"
  proof (cases "canon_key ?key \<in> records")
    case True
    with step h have "s1 = logging (SkippedDuplicate city (fst ?key) (upper mode)) s" by simp
    with True assms(1) show ?thesis by (intro that[of records]) simp_all
  next
    case False
    with step h have "s1 = (logging (Wrote (upper mode) city (fst ?key))
                      (append_row fp (writerow E row1) s))
                \<lparr>city_records := (city_records s)(city \<mapsto> insert (canon_key ?key) records)\<rparr>"
      by simp
    then show ?thesis by (intro that[of "insert (canon_key ?key) records"]) simp_all
  qed
  obtain records' where r': "city_records s' city = Some records'" and sub: "records1 \<subseteq> records'"
    using extract_and_write_days_frame[OF rest] r1 by blast
  have "canon_key ?key \<in> records'" using in1 sub by blast
  then have "extract_and_write_day E fp city data mode d2 s'
           = Inr (logging (SkippedDuplicate city date (upper mode)) s')"
    using extract_and_write_day_built[OF assms(4) k2 r', of E fp] h by simp
  with s1 r1 in1 w show ?thesis by blast
qed


theorem second_entry_of_a_date_is_skipped_witness:
  "(\<exists>s1 records1.
      extract_and_write_day steady_env london_csv ''London'' (london repeated_days) ''forecast''
        (sample_day ''2024-01-10'') london_opened = Inr s1 \<and>
      city_records s1 ''London'' = Some records1 \<and>
      canon_key (JStr ''2024-01-10'', JStr (upper ''forecast'')) \<in> records1 \<and>
      files s1 london_csv = Some [header, sample_row ''2024-01-10'' ''FORECAST'']) \<and>
   (\<exists>s'. extract_and_write_days steady_env london_csv ''London'' (london repeated_days)
           ''forecast'' [sample_day ''2024-01-10'', sample_day ''2024-01-11''] london_opened
           = (None, s') \<and>
         extract_and_write_day steady_env london_csv ''London'' (london repeated_days)
           ''forecast'' (sample_day ''2024-01-10'') s'
           = Inr (logging (SkippedDuplicate ''London'' (JStr ''2024-01-10'') (upper ''forecast'')) s')) \<and>
   files (extract_and_write steady_env (london repeated_days) ''forecast'' london_state) london_csv
     = Some [header, sample_row ''2024-01-10'' ''FORECAST'', sample_row ''2024-01-11'' ''FORECAST'']"
proof -
  let ?data = "london repeated_days"
  let ?d = "sample_day ''2024-01-10''"
  have a: "city_records london_opened ''London'' = Some {}"
    by (simp add: london_opened_def eval_defs)
  have f: "files london_opened london_csv = Some [header]"
    by (simp add: london_opened_def eval_defs)
  obtain row where b: "build_row ?data ''forecast'' ?d = Inr row"
    and w: "writerow steady_env row = sample_row ''2024-01-10'' ''FORECAST''"
    by (simp add: eval_defs repeated_days_def steady_env_def)
  have c: "subscript ?d ''date'' = Inr (JStr ''2024-01-10'')"
    by (simp add: sample_day_def)
  obtain s' where
    l: "extract_and_write_days steady_env london_csv ''London'' ?data ''forecast''
          (?d # [sample_day ''2024-01-11'']) london_opened = (None, s')"
    by (simp add: london_opened_def repeated_days_def steady_env_def eval_defs)
  have e: "files (extract_and_write steady_env ?data ''forecast'' london_state) london_csv
     = Some [header, sample_row ''2024-01-10'' ''FORECAST'', sample_row ''2024-01-11'' ''FORECAST'']"
    by (simp add: repeated_days_def steady_env_def eval_defs)
  have n: "canon_key (JStr ''2024-01-10'', JStr (upper ''forecast'')) \<notin> {}" by simp
  from second_entry_of_a_date_is_skipped[OF a b c b c l] n f w l e
  show ?thesis by (auto simp del: extract_and_write_days.simps)
qed

section \<open>The first call for a city\<close>

lemma read_records_header_only: "read_records (DictReader [header]) {} = {}"
  by (simp add: DictReader_def)

lemma extract_and_write_day_new:
  assumes "build_row data mode day_data = Inr row" and "subscript day_data ''date'' = Inr date"
    and "city_records s city = Some records" and "hashable date"
    and "(canon date, JStr (upper mode)) \<notin> records"
    and "files s fp = Some rows"
  shows "\<exists>s'. extract_and_write_day E fp city data mode day_data s = Inr s' \<and>
           files s' fp = Some (rows @ [writerow E row]) \<and>
           city_records s' city = Some (insert (canon date, JStr (upper mode)) records)"
proof -
  have k: "key_of_row row = Inr (date, JStr (upper mode))"
    using key_of_built_row[OF assms(1), of E] assms(2) by auto
  show ?thesis
    using extract_and_write_day_built[OF assms(1) k assms(3), of E fp] assms(4,5,6)
    by (simp add: hashable_key_def canon_key_def)
qed

text \<open>
  C5, as the code has it. A payload with three forecast days, from each of which a row can
  be built, whose dates can be hashed and are pairwise different as Python compares them:
  for a city with no file and no ledger, the call creates the file with the header and
  appends exactly the three rows, in the order of the payload.
\<close>

theorem three_new_dates_give_three_rows:
  assumes "city_of data = Inr city" and "files s (csv_path city) = None"
    and "city_records s city = None"
    and "forecast_days_of data = Inr [d1, d2, d3]"
    and "build_row data mode d1 = Inr r1" and "subscript d1 ''date'' = Inr date1"
    and "build_row data mode d2 = Inr r2" and "subscript d2 ''date'' = Inr date2"
    and "build_row data mode d3 = Inr r3" and "subscript d3 ''date'' = Inr date3"
    and "hashable date1" and "hashable date2" and "hashable date3"
    and "distinct [canon date1, canon date2, canon date3]"
  shows "files (extract_and_write E data mode s) (csv_path city)
           = Some [header, writerow E r1, writerow E r2, writerow E r3]"
proof -
  let ?p = "csv_path city"
  let ?s2 = "load_city_records city ?p (snd (create_csv_for_city city s))"
  let ?T = "JStr (upper mode)"
  have f2: "files ?s2 ?p = Some [header]"
    using assms(2) by (simp add: create_csv_for_city_files)
  have l2: "city_records ?s2 city = Some {}"
    using assms(2,3) by (simp add: load_city_records_at create_csv_for_city_files read_records_header_only)
  obtain s3 where s3: "extract_and_write_day E ?p city data mode d1 ?s2 = Inr s3"
    "files s3 ?p = Some ([header] @ [writerow E r1])"
    "city_records s3 city = Some {(canon date1, ?T)}"
    using extract_and_write_day_new[OF assms(5,6) l2 assms(11) _ f2, of E] by auto
  have n2: "(canon date2, ?T) \<notin> {(canon date1, ?T)}" using assms(14) by auto
  obtain s4 where s4: "extract_and_write_day E ?p city data mode d2 s3 = Inr s4"
    "files s4 ?p = Some (([header] @ [writerow E r1]) @ [writerow E r2])"
    "city_records s4 city = Some {(canon date2, ?T), (canon date1, ?T)}"
    using extract_and_write_day_new[OF assms(7,8) s3(3) assms(12) n2 s3(2), of E] by auto
  have n3: "(canon date3, ?T) \<notin> {(canon date2, ?T), (canon date1, ?T)}" using assms(14) by auto
  obtain s5 where s5: "extract_and_write_day E ?p city data mode d3 s4 = Inr s5"
    "files s5 ?p = Some ((([header] @ [writerow E r1]) @ [writerow E r2]) @ [writerow E r3])"
    using extract_and_write_day_new[OF assms(9,10) s4(3) assms(13) n3 s4(2), of E] by auto
  have loop: "extract_and_write_days E ?p city data mode [d1, d2, d3] ?s2 = (None, s5)"
    using s3(1) s4(1) s5(1) by simp
  show ?thesis
  proof (cases rule: extract_and_write_cases[of data E mode s])
    case (no_city e)
    with assms(1) show ?thesis by simp
  next
    case (no_days c e)
    with assms(4) show ?thesis by simp
  next
    case (days c ds r s')
    with assms(1,4) loop have "c = city" "ds = [d1, d2, d3]" by simp_all
    with days(3,4) loop s5(2) show ?thesis by simp
  qed
qed

theorem three_new_dates_give_three_rows_witness:
  "city_of (london three_days) = Inr ''London'' \<and>
   files london_state (csv_path ''London'') = None \<and>
   city_records london_state ''London'' = None \<and>
   forecast_days_of (london three_days)
     = Inr [sample_day ''2024-01-10'', sample_day ''2024-01-11'', sample_day ''2024-01-12''] \<and>
   files (extract_and_write steady_env (london three_days) ''forecast'' london_state)
       (csv_path ''London'')
     = Some [header, sample_row ''2024-01-10'' ''FORECAST'',
             sample_row ''2024-01-11'' ''FORECAST'', sample_row ''2024-01-12'' ''FORECAST'']"
proof -
  let ?data = "london three_days"
  have a: "city_of ?data = Inr ''London''" by (simp add: eval_defs)
  have b: "files london_state (csv_path ''London'') = None" by (simp add: eval_defs)
  have c: "city_records london_state ''London'' = None" by (simp add: eval_defs)
  have d: "forecast_days_of ?data
     = Inr [sample_day ''2024-01-10'', sample_day ''2024-01-11'', sample_day ''2024-01-12'']"
    by (simp add: forecast_days_of_def london_def three_days_def)
  obtain r1 where r1: "build_row ?data ''forecast'' (sample_day ''2024-01-10'') = Inr r1"
    "writerow steady_env r1 = sample_row ''2024-01-10'' ''FORECAST''"
    by (simp add: eval_defs steady_env_def)
  obtain r2 where r2: "build_row ?data ''forecast'' (sample_day ''2024-01-11'') = Inr r2"
    "writerow steady_env r2 = sample_row ''2024-01-11'' ''FORECAST''"
    by (simp add: eval_defs steady_env_def)
  obtain r3 where r3: "build_row ?data ''forecast'' (sample_day ''2024-01-12'') = Inr r3"
    "writerow steady_env r3 = sample_row ''2024-01-12'' ''FORECAST''"
    by (simp add: eval_defs steady_env_def)
  have e: "subscript (sample_day ''2024-01-10'') ''date'' = Inr (JStr ''2024-01-10'')"
    "subscript (sample_day ''2024-01-11'') ''date'' = Inr (JStr ''2024-01-11'')"
    "subscript (sample_day ''2024-01-12'') ''date'' = Inr (JStr ''2024-01-12'')"
    by (simp_all add: sample_day_def)
  have h: "hashable (JStr ''2024-01-10'')" "hashable (JStr ''2024-01-11'')"
    "hashable (JStr ''2024-01-12'')" by simp_all
  have g: "distinct [canon (JStr ''2024-01-10''), canon (JStr ''2024-01-11''),
                     canon (JStr ''2024-01-12'')]" by simp
  from three_new_dates_give_three_rows[OF a b c d r1(1) e(1) r2(1) e(2) r3(1) e(3) h g,
      of steady_env]
  show ?thesis using a b c d r1(2) r2(2) r3(2) by simp
qed

text \<open>
  C5 as it is stated, for every payload with three forecast days, fails when a date comes
  twice: the third entry below repeats the date of the first, and the new file gets two
  data rows.
\<close>

theorem three_entries_two_rows:
  "forecast_days_of (london repeated_days)
     = Inr [sample_day ''2024-01-10'', sample_day ''2024-01-11'', sample_day ''2024-01-10''] \<and>
   files london_state london_csv = None \<and>
   city_records london_state ''London'' = None \<and>
   files (extract_and_write steady_env (london repeated_days) ''forecast'' london_state)
       london_csv
     = Some [header, sample_row ''2024-01-10'' ''FORECAST'', sample_row ''2024-01-11'' ''FORECAST'']"
  by (simp add: repeated_days_def steady_env_def eval_defs)

section \<open>No pair twice in a file\<close>

lemma dict_row_header:
  assumes "length cells = 8"
  shows "dict_row header cells ''Date'' = Some (cells ! 0)"
    and "dict_row header cells ''Type'' = Some (cells ! 7)"
proof -
  from assms obtain a b c d e f g h where "cells = [a, b, c, d, e, f, g, h]"
    by (auto simp: length_Suc_conv eval_nat_numeral)
  then show "dict_row header cells ''Date'' = Some (cells ! 0)"
    and "dict_row header cells ''Type'' = Some (cells ! 7)"
    by (simp_all add: dict_row_def header_def)
qed

lemma file_keys_append_row:
  assumes "rows \<noteq> []" and "hd rows = header" and "length cells = 8"
  shows "file_keys (rows @ [cells]) = file_keys rows @ [(Some (cells ! 0), Some (cells ! 7))]"
proof -
  obtain rest where r: "rows = header # rest" using assms(1,2) by (cases rows) auto
  have "cells \<noteq> []" using assms(3) by auto
  then show ?thesis
    by (simp add: r file_keys_def DictReader_def dict_row_header[OF assms(3)])
qed

lemma file_keys_header_only [simp]: "file_keys [header] = []"
  by (simp add: file_keys_def DictReader_def)

lemma replace_spaces_idem [simp]: "replace_spaces (replace_spaces c) = replace_spaces c"
  by (simp add: replace_spaces_def)

lemma csv_path_inj: "csv_path c = csv_path c' \<Longrightarrow> replace_spaces c = replace_spaces c'"
  by (simp add: csv_path_def)

lemma csv_path_replace [simp]: "csv_path (replace_spaces c) = csv_path c"
  by (simp add: csv_path_def)

lemma str_replace_Inr: "str_replace v = Inr c \<Longrightarrow> replace_spaces c = c"
  by (cases v) auto

lemma city_of_fixed: "city_of data = Inr city \<Longrightarrow> replace_spaces city = city"
  unfolding city_of_def try_bind_Inr by (auto dest: str_replace_Inr)

lemma upper_nonempty: "mode \<noteq> [] \<Longrightarrow> upper mode \<noteq> []"
  by (simp add: upper_def)

lemma real_date_built:
  assumes "real_date day_data" and "build_row data mode day_data = Inr row"
  shows "\<exists>d. d \<noteq> [] \<and> subscript day_data ''date'' = Inr (JStr d) \<and>
           key_of_row row = Inr (JStr d, JStr (upper mode)) \<and>
           length (writerow E row) = 8 \<and> writerow E row ! 0 = d \<and>
           writerow E row ! 7 = upper mode"
proof -
  from key_of_built_row[OF assms(2), of E] obtain date where
    d: "subscript day_data ''date'' = Inr date" "key_of_row row = Inr (date, JStr (upper mode))"
    "length (writerow E row) = 8" "writerow E row ! 0 = csv_cell E date"
    "writerow E row ! 7 = upper mode" by blast
  from assms(1) d(1) obtain s where "date = JStr s" "s \<noteq> []"
    by (cases date) (auto simp: real_date_def)
  with d show ?thesis by (auto simp: csv_cell_def)
qed

lemma string_key_simps [simp]:
  "hashable_key (JStr d, JStr t)" "canon_key (JStr d, JStr t) = (JStr d, JStr t)"
  by (simp_all add: hashable_key_def canon_key_def)


lemma ledger_okI:
  assumes "\<And>rows. files s p = Some rows \<Longrightarrow> has_header rows \<and> distinct (file_keys rows)"
    and "\<And>c L. city_records s c = Some L \<Longrightarrow> csv_path c = p \<Longrightarrow>
         replace_spaces c = c \<and>
         (\<exists>rows. files s p = Some rows \<and> rows \<noteq> [] \<and>
            (\<forall>d t. (Some d, Some t) \<in> set (file_keys rows) \<and> d \<noteq> [] \<and> t \<noteq> []
                \<longrightarrow> (JStr d, JStr t) \<in> L))"
  shows "ledger_ok p s"
  using assms unfolding ledger_ok_def by blast

lemma ledger_ok_file:
  "ledger_ok p s \<Longrightarrow> files s p = Some rows \<Longrightarrow> has_header rows \<and> distinct (file_keys rows)"
  unfolding ledger_ok_def by blast

lemma ledger_ok_ledger:
  "ledger_ok p s \<Longrightarrow> city_records s c = Some L \<Longrightarrow> csv_path c = p \<Longrightarrow>
     replace_spaces c = c \<and>
     (\<exists>rows. files s p = Some rows \<and> rows \<noteq> [] \<and>
        (\<forall>d t. (Some d, Some t) \<in> set (file_keys rows) \<and> d \<noteq> [] \<and> t \<noteq> []
            \<longrightarrow> (JStr d, JStr t) \<in> L))"
  unfolding ledger_ok_def by blast

lemma ledger_ok_cong:
  "ledger_ok p s \<Longrightarrow> files s' = files s \<Longrightarrow> city_records s' = city_records s \<Longrightarrow>
     ledger_ok p s'"
  by (simp add: ledger_ok_def)

lemma ledger_ok_day:
  assumes inv: "ledger_ok p s" and fx: "replace_spaces city = city"
    and rd: "real_date day_data" and m: "mode \<noteq> []"
    and st: "extract_and_write_day E (csv_path city) city data mode day_data s = Inr s'"
  shows "ledger_ok p s'"
  using st
proof (cases rule: extract_and_write_day_cases)
  case (skipped row key records)
  then show ?thesis by (intro ledger_ok_cong[OF inv]) simp_all
next
  case (written row key records)
  let ?T = "upper mode"
  let ?cells = "writerow E row"
  from real_date_built[OF rd written(1), of E] written(2) obtain d where
    d: "d \<noteq> []" "key = (JStr d, JStr ?T)" "length ?cells = 8" "?cells ! 0 = d" "?cells ! 7 = ?T"
    by auto
  have T: "?T \<noteq> []" using m by (rule upper_nonempty)
  have new: "(JStr d, JStr ?T) \<notin> records" using written(5) d(2) by simp
  have fs: "files s' = (files s)(csv_path city \<mapsto>
              (case files s (csv_path city) of None \<Rightarrow> [] | Some rows \<Rightarrow> rows) @ [?cells])"
    and cr: "city_records s' = (city_records s)(city \<mapsto> insert (JStr d, JStr ?T) records)"
    using written(6) d(2) by simp_all
  show ?thesis
  proof (cases "csv_path city = p")
    case False
    show ?thesis
    proof (rule ledger_okI)
      fix rows assume "files s' p = Some rows"
      then have "files s p = Some rows" using False fs by simp
      then show "has_header rows \<and> distinct (file_keys rows)" using ledger_ok_file[OF inv] by blast
    next
      fix c L assume c: "city_records s' c = Some L" "csv_path c = p"
      then have "c \<noteq> city" using False by auto
      then have "city_records s c = Some L" using c(1) cr by simp
      from ledger_ok_ledger[OF inv this c(2)] False fs
      show "replace_spaces c = c \<and>
         (\<exists>rows. files s' p = Some rows \<and> rows \<noteq> [] \<and>
            (\<forall>d t. (Some d, Some t) \<in> set (file_keys rows) \<and> d \<noteq> [] \<and> t \<noteq> []
                \<longrightarrow> (JStr d, JStr t) \<in> L))" by simp
    qed
  next
    case True
    from ledger_ok_ledger[OF inv written(3) True] obtain rows where
      rows: "files s p = Some rows" "rows \<noteq> []"
      and sub: "\<And>d t. (Some d, Some t) \<in> set (file_keys rows) \<Longrightarrow> d \<noteq> [] \<Longrightarrow> t \<noteq> []
                \<Longrightarrow> (JStr d, JStr t) \<in> records" by blast
    from ledger_ok_file[OF inv rows(1)] rows(2) have
      hd: "hd rows = header" and dist: "distinct (file_keys rows)"
      by (simp_all add: has_header_def)
    have fs': "files s' p = Some (rows @ [?cells])" using fs rows(1) True by simp
    have keys: "file_keys (rows @ [?cells]) = file_keys rows @ [(Some d, Some ?T)]"
      using file_keys_append_row[OF rows(2) hd d(3)] d(4,5) by simp
    have fresh: "(Some d, Some ?T) \<notin> set (file_keys rows)"
      using sub[of d ?T] d(1) T new by blast
    show ?thesis
    proof (rule ledger_okI)
      fix rows' assume "files s' p = Some rows'"
      then have r': "rows' = rows @ [?cells]" using fs' by simp
      have "has_header rows'" using hd rows(2) by (simp add: r' has_header_def)
      moreover have "distinct (file_keys rows')" using dist fresh by (simp add: r' keys)
      ultimately show "has_header rows' \<and> distinct (file_keys rows')" by blast
    next
      fix c L assume c: "city_records s' c = Some L" "csv_path c = p"
      have "c = city"
      proof (rule ccontr)
        assume ne: "c \<noteq> city"
        then have "city_records s c = Some L" using c(1) cr by simp
        from ledger_ok_ledger[OF inv this c(2)] have "replace_spaces c = c" by blast
        moreover have "replace_spaces c = replace_spaces city"
          using csv_path_inj[of c city] c(2) True by simp
        ultimately show False using fx ne by simp
      qed
      then have L: "L = insert (JStr d, JStr ?T) records" using c(1) cr by simp
      have "\<forall>d' t'. (Some d', Some t') \<in> set (file_keys (rows @ [?cells])) \<and> d' \<noteq> [] \<and> t' \<noteq> []
                \<longrightarrow> (JStr d', JStr t') \<in> L"
        using sub by (auto simp: keys L)
      then show "replace_spaces c = c \<and>
         (\<exists>rows. files s' p = Some rows \<and> rows \<noteq> [] \<and>
            (\<forall>d t. (Some d, Some t) \<in> set (file_keys rows) \<and> d \<noteq> [] \<and> t \<noteq> []
                \<longrightarrow> (JStr d, JStr t) \<in> L))"
        using fs' fx \<open>c = city\<close> by auto
    qed
  qed
qed

lemma ledger_ok_days:
  assumes "ledger_ok p s" and "replace_spaces city = city"
    and "list_all real_date days" and "mode \<noteq> []"
    and "extract_and_write_days E (csv_path city) city data mode days s = (r, s')"
  shows "ledger_ok p s'"
  using assms
proof (induction days arbitrary: s)
  case Nil
  then show ?case by simp
next
  case (Cons d days)
  show ?case
  proof (cases "extract_and_write_day E (csv_path city) city data mode d s")
    case (Inl e)
    with Cons.prems show ?thesis by simp
  next
    case (Inr s1)
    have "ledger_ok p s1"
      using ledger_ok_day[OF Cons.prems(1,2) _ Cons.prems(4) Inr] Cons.prems(3) by simp
    moreover have "extract_and_write_days E (csv_path city) city data mode days s1 = (r, s')"
      using Cons.prems(5) Inr by simp
    ultimately show ?thesis using Cons.IH Cons.prems(2,3,4) by simp
  qed
qed

lemma ledger_ok_open:
  assumes inv: "ledger_ok p s" and fx: "replace_spaces city = city"
  shows "ledger_ok p (load_city_records city (csv_path city) (snd (create_csv_for_city city s)))"
    (is "ledger_ok p ?s2")
proof -
  let ?s1 = "snd (create_csv_for_city city s)"
  have one: "ledger_ok p ?s1"
  proof (cases "case files s (csv_path city) of None \<Rightarrow> True | Some rows \<Rightarrow> rows = []")
    case False
    then have "files ?s1 = files s"
      by (auto simp: create_csv_for_city_files split: option.splits)
    then show ?thesis by (intro ledger_ok_cong[OF inv]) simp_all
  next
    case True
    then have f1: "files ?s1 = (files s)(csv_path city \<mapsto> [header])"
      by (auto simp: create_csv_for_city_files split: option.splits)
    show ?thesis
    proof (rule ledger_okI)
      fix rows assume a: "files ?s1 p = Some rows"
      show "has_header rows \<and> distinct (file_keys rows)"
      proof (cases "csv_path city = p")
        case True
        with a f1 have "rows = [header]" by simp
        then show ?thesis by (simp add: has_header_def)
      next
        case False
        with a f1 have "files s p = Some rows" by simp
        then show ?thesis using ledger_ok_file[OF inv] by blast
      qed
    next
      fix c L assume c: "city_records ?s1 c = Some L" "csv_path c = p"
      then have cs: "city_records s c = Some L" by simp
      from ledger_ok_ledger[OF inv cs c(2)] obtain rows where
        r: "replace_spaces c = c" "files s p = Some rows" "rows \<noteq> []"
        "\<forall>d t. (Some d, Some t) \<in> set (file_keys rows) \<and> d \<noteq> [] \<and> t \<noteq> []
            \<longrightarrow> (JStr d, JStr t) \<in> L" by blast
      have "csv_path city \<noteq> p" using True r(2,3) by (auto split: option.splits)
      then have "files ?s1 p = Some rows" using f1 r(2) by simp
      with r show "replace_spaces c = c \<and>
         (\<exists>rows. files ?s1 p = Some rows \<and> rows \<noteq> [] \<and>
            (\<forall>d t. (Some d, Some t) \<in> set (file_keys rows) \<and> d \<noteq> [] \<and> t \<noteq> []
                \<longrightarrow> (JStr d, JStr t) \<in> L))" by blast
    qed
  qed
  show ?thesis
  proof (cases "city_records ?s1 city")
    case (Some L)
    then have "?s2 = ?s1" by (simp add: load_city_records_def)
    with one show ?thesis by simp
  next
    case None
    obtain rows where rows: "files ?s1 (csv_path city) = Some rows" "rows \<noteq> []"
      using create_csv_for_city_exists by blast
    have at: "city_records ?s2 city = Some (read_records (DictReader rows) {})"
      using None rows(1) by (simp add: load_city_records_at)
    show ?thesis
    proof (rule ledger_okI)
      fix rs assume "files ?s2 p = Some rs"
      then show "has_header rs \<and> distinct (file_keys rs)"
        using ledger_ok_file[OF one, of rs] by simp
    next
      fix c L assume c: "city_records ?s2 c = Some L" "csv_path c = p"
      show "replace_spaces c = c \<and>
         (\<exists>rows. files ?s2 p = Some rows \<and> rows \<noteq> [] \<and>
            (\<forall>d t. (Some d, Some t) \<in> set (file_keys rows) \<and> d \<noteq> [] \<and> t \<noteq> []
                \<longrightarrow> (JStr d, JStr t) \<in> L))"
      proof (cases "c = city")
        case False
        then have "city_records ?s1 c = Some L" using c(1) by simp
        from ledger_ok_ledger[OF one this c(2)] show ?thesis by simp
      next
        case True
        then have L: "L = read_records (DictReader rows) {}" using c(1) at by simp
        have p: "csv_path city = p" using True c(2) by simp
        have "\<forall>d t. (Some d, Some t) \<in> set (file_keys rows) \<and> d \<noteq> [] \<and> t \<noteq> []
                \<longrightarrow> (JStr d, JStr t) \<in> L"
          unfolding L read_records_iff by (auto simp: file_keys_def)
        then show ?thesis using True fx rows p by auto
      qed
    qed
  qed
qed

lemma ledger_ok_extract_and_write:
  assumes "ledger_ok p s" and "real_dates data" and "mode \<noteq> []"
  shows "ledger_ok p (extract_and_write E data mode s)"
proof (cases rule: extract_and_write_cases[of data E mode s])
  case (no_city e)
  then show ?thesis by (intro ledger_ok_cong[OF assms(1)]) simp_all
next
  case (no_days city e)
  then show ?thesis
    by (intro ledger_ok_cong[OF ledger_ok_open[OF assms(1) city_of_fixed[OF no_days(1)]]])
      simp_all
next
  case (days city days r s3)
  have fx: "replace_spaces city = city" using days(1) by (rule city_of_fixed)
  have "list_all real_date days" using assms(2) days(2) by (simp add: real_dates_def)
  from ledger_ok_days[OF ledger_ok_open[OF assms(1) fx] fx this assms(3) days(3)]
  have "ledger_ok p s3" .
  then show ?thesis
    using days(4) by (cases r) (auto intro: ledger_ok_cong)
qed

lemma ledger_ok_run_calls:
  assumes "ledger_ok p s" and "list_all (\<lambda>c. real_dates (fst c) \<and> snd c \<noteq> []) calls"
  shows "ledger_ok p (run_calls E calls s)"
  using assms
proof (induction calls arbitrary: s)
  case Nil
  then show ?case by simp
next
  case (Cons c calls)
  obtain data mode where c: "c = (data, mode)" by (cases c) auto
  show ?case
    using Cons.IH[of "extract_and_write E data mode s"] Cons.prems
      ledger_ok_extract_and_write[of p s data mode E]
    by (simp add: c)
qed

text \<open>
  C3, as the code has it. A new extractor, a file that (if it is there) starts with the
  header and has no pair twice, and any sequence of calls whose payloads carry dates that
  are non-empty strings, with a mode that is not empty: after the calls, and so after
  each of them, no two rows of the file have the same (Date, Type) pair.
\<close>

theorem no_two_rows_share_a_key:
  assumes "city_records s = Map.empty"
    and "\<forall>rows. files s p = Some rows \<longrightarrow> has_header rows \<and> distinct (file_keys rows)"
    and "list_all (\<lambda>c. real_dates (fst c) \<and> snd c \<noteq> []) calls"
  shows "\<forall>rows. files (run_calls E calls s) p = Some rows \<longrightarrow> distinct (file_keys rows)"
proof -
  have "ledger_ok p s" using assms(1,2) by (simp add: ledger_ok_def)
  from ledger_ok_run_calls[OF this assms(3), of E] show ?thesis
    using ledger_ok_file by blast
qed


theorem no_two_rows_share_a_key_witness:
  "city_records (init ''KEY'' [''London''] [london_csv \<mapsto> dated_file]) = Map.empty \<and>
   files (init ''KEY'' [''London''] [london_csv \<mapsto> dated_file]) london_csv = Some dated_file \<and>
   has_header dated_file \<and> distinct (file_keys dated_file) \<and>
   list_all (\<lambda>c. real_dates (fst c) \<and> snd c \<noteq> []) two_calls \<and>
   files (run_calls steady_env two_calls (init ''KEY'' [''London''] [london_csv \<mapsto> dated_file]))
       london_csv
     = Some [header, sample_row ''2024-01-10'' ''FORECAST'', sample_row ''2024-01-11'' ''FORECAST'',
             sample_row ''2024-01-12'' ''FORECAST'', sample_row ''2024-01-10'' ''HISTORY'',
             sample_row ''2024-01-11'' ''HISTORY''] \<and>
   distinct (file_keys
            [header, sample_row ''2024-01-10'' ''FORECAST'', sample_row ''2024-01-11'' ''FORECAST'',
             sample_row ''2024-01-12'' ''FORECAST'', sample_row ''2024-01-10'' ''HISTORY'',
             sample_row ''2024-01-11'' ''HISTORY''])"
proof -
  let ?s = "init ''KEY'' [''London''] [london_csv \<mapsto> dated_file]"
  have a: "city_records ?s = Map.empty" by (simp add: init_def)
  have f: "files ?s london_csv = Some dated_file" by (simp add: init_def)
  have h: "has_header dated_file" by (simp add: has_header_def dated_file_def)
  have d: "distinct (file_keys dated_file)"
    by (simp add: file_keys_def dated_file_def DictReader_def)
  have b: "\<forall>rows. files ?s london_csv = Some rows \<longrightarrow> has_header rows \<and> distinct (file_keys rows)"
    using f h d by simp
  have c: "list_all (\<lambda>c. real_dates (fst c) \<and> snd c \<noteq> []) two_calls"
    by (simp add: two_calls_def real_dates_def real_date_def forecast_days_of_def london_def
        three_days_def repeated_days_def sample_day_def)
  have r: "files (run_calls steady_env two_calls ?s) london_csv
     = Some [header, sample_row ''2024-01-10'' ''FORECAST'', sample_row ''2024-01-11'' ''FORECAST'',
             sample_row ''2024-01-12'' ''FORECAST'', sample_row ''2024-01-10'' ''HISTORY'',
             sample_row ''2024-01-11'' ''HISTORY'']"
    by (simp add: two_calls_def dated_file_def repeated_days_def steady_env_def eval_defs)
  from no_two_rows_share_a_key[OF a b c, of steady_env] r a f h d c show ?thesis by simp
qed

text \<open>
  C3 as it is stated fails for a pair whose date is empty: the ledger read from the file
  leaves the row out (line 87), so a payload with the empty date is not taken for a
  duplicate, and the file that had the pair once has it twice after one call.
\<close>

theorem rows_without_date_repeat:
  "city_records (init ''KEY'' [''London''] [london_csv \<mapsto> undated_file]) ''London'' = None \<and>
   files (init ''KEY'' [''London''] [london_csv \<mapsto> undated_file]) london_csv
     = Some undated_file \<and>
   distinct (file_keys undated_file) \<and>
   files (extract_and_write steady_env (london [[]]) ''forecast''
            (init ''KEY'' [''London''] [london_csv \<mapsto> undated_file])) london_csv
     = Some [header, sample_row [] ''FORECAST'', sample_row [] ''FORECAST''] \<and>
   \<not> distinct (file_keys [header, sample_row [] ''FORECAST'', sample_row [] ''FORECAST''])"
  by (simp add: undated_file_def file_keys_def steady_env_def eval_defs)

section \<open>A run as a list of units\<close>

lemma http_get_payload:
  "(case http_get E url s of Inl e \<Rightarrow> JNull | Inr j \<Rightarrow> j) = payload_of (net E url (requests_made s))"
  by (auto simp: http_get_def payload_of_def split: reply.splits option.splits)

lemma fetch_data_payload:
  "fst (fetch_data E url s) = Inr (payload_of (net E url (requests_made s)))"
  using http_get_payload[of E url s]
  by (simp add: fetch_data_is_body fetch_data_body_result split: sum.splits)

lemma run_units_Cons:
  "run_units E ((url, mode, msg) # us) s =
     run_units E us
       (if truthy (payload_of (net E url (requests_made s)))
        then extract_and_write E (payload_of (net E url (requests_made s))) mode
               (snd (fetch_data E url (logging msg s)))
        else snd (fetch_data E url (logging msg s)))"
  using fetch_data_payload[of E url "logging msg s"]
  by (cases "fetch_data E url (logging msg s)") auto

lemma run_units_append: "run_units E (us @ vs) s = run_units E vs (run_units E us s)"
proof (induction us arbitrary: s)
  case Nil
  then show ?case by simp
next
  case (Cons u us)
  obtain url mode msg where u: "u = (url, mode, msg)" by (cases u) auto
  show ?case unfolding u append_Cons run_units_Cons using Cons.IH by simp
qed

lemma run_units_frame:
  "api_key (run_units E us s) = api_key s \<and> cities (run_units E us s) = cities s \<and>
   requests_made (run_units E us s) = requests_made s + length us"
proof (induction us arbitrary: s)
  case Nil
  then show ?case by simp
next
  case (Cons u us)
  obtain url mode msg where u: "u = (url, mode, msg)" by (cases u) auto
  show ?case unfolding u run_units_Cons
    by (simp add: Cons.IH extract_and_write_frame fetch_data_frame)
qed

lemma build_url_cong:
  "api_key s = api_key t \<Longrightarrow> build_forecast_url s = build_forecast_url t"
  "api_key s = api_key t \<Longrightarrow> build_history_url s = build_history_url t"
  by (auto simp: build_forecast_url_def build_history_url_def fun_eq_iff)

lemma units_cong:
  "api_key s = api_key t \<Longrightarrow> cities s = cities t \<Longrightarrow> units E s = units E t"
  by (simp add: units_def forecast_units_def history_units_def build_url_cong[of s t])

lemma run_forecast_cities_units:
  assumes "api_key s0 = api_key s"
  shows "run_forecast_cities E cs s = (None, run_units E (forecast_units s0 cs) s)"
  using assms
proof (induction cs arbitrary: s)
  case Nil
  then show ?case by (simp add: forecast_units_def)
next
  case (Cons city cs)
  let ?url = "build_forecast_url s city"
  let ?s1 = "logging (FetchingForecast city) s"
  let ?data = "payload_of (net E ?url (requests_made s))"
  obtain sf where f: "fetch_data E ?url ?s1 = (Inr ?data, sf)"
    using fetch_data_payload[of E ?url ?s1] by (cases "fetch_data E ?url ?s1") auto
  let ?s2 = "if truthy ?data then extract_and_write E ?data ''forecast'' sf else sf"
  have u: "build_forecast_url s0 city = ?url" using Cons.prems build_url_cong(1)[of s0 s] by simp
  have "api_key sf = api_key s" using fetch_data_frame(3)[of E ?url ?s1] f by simp
  then have k: "api_key s0 = api_key ?s2"
    using Cons.prems by (simp add: extract_and_write_frame)
  have "run_forecast_cities E (city # cs) s = run_forecast_cities E cs ?s2"
    by (simp add: Let_def f)
  also have "\<dots> = (None, run_units E (forecast_units s0 cs) ?s2)"
    using Cons.IH[OF k] .
  also have "run_units E (forecast_units s0 cs) ?s2 = run_units E (forecast_units s0 (city # cs)) s"
    unfolding forecast_units_def list.map run_units.simps u by (simp add: f)
  finally show ?case .
qed

lemma run_history_cities_units:
  assumes "api_key s0 = api_key s"
  shows "run_history_cities E hdate cs s = (None, run_units E (history_units s0 hdate cs) s)"
  using assms
proof (induction cs arbitrary: s)
  case Nil
  then show ?case by (simp add: history_units_def)
next
  case (Cons city cs)
  let ?url = "build_history_url s city hdate"
  let ?s1 = "logging (FetchingHistory city hdate) s"
  let ?data = "payload_of (net E ?url (requests_made s))"
  obtain sf where f: "fetch_data E ?url ?s1 = (Inr ?data, sf)"
    using fetch_data_payload[of E ?url ?s1] by (cases "fetch_data E ?url ?s1") auto
  let ?s2 = "if truthy ?data then extract_and_write E ?data ''history'' sf else sf"
  have u: "build_history_url s0 city hdate = ?url"
    using Cons.prems build_url_cong(2)[of s0 s] by simp
  have "api_key sf = api_key s" using fetch_data_frame(3)[of E ?url ?s1] f by simp
  then have k: "api_key s0 = api_key ?s2"
    using Cons.prems by (simp add: extract_and_write_frame)
  have "run_history_cities E hdate (city # cs) s = run_history_cities E hdate cs ?s2"
    by (simp add: Let_def f)
  also have "\<dots> = (None, run_units E (history_units s0 hdate cs) ?s2)"
    using Cons.IH[OF k] .
  also have "run_units E (history_units s0 hdate cs) ?s2
               = run_units E (history_units s0 hdate (city # cs)) s"
    unfolding history_units_def list.map run_units.simps u by (simp add: f)
  finally show ?case .
qed

lemma run_history_days_units:
  assumes "api_key s0 = api_key s" and "cities s0 = cities s"
  shows "run_history_days E is s =
           (None, run_units E (concat (map (\<lambda>i. history_units s0 (days_ago E i) (cities s0)) is)) s)"
  using assms
proof (induction "is" arbitrary: s)
  case Nil
  then show ?case by simp
next
  case (Cons i "is")
  let ?s1 = "run_units E (history_units s0 (days_ago E i) (cities s0)) s"
  have a: "run_history_cities E (days_ago E i) (cities s) s = (None, ?s1)"
    using run_history_cities_units[OF Cons.prems(1), of E "days_ago E i" "cities s"] Cons.prems(2)
    by simp
  have k: "api_key s0 = api_key ?s1" "cities s0 = cities ?s1"
    using Cons.prems run_units_frame[of E _ s] by simp_all
  show ?case
    using Cons.IH[OF k] by (simp add: a run_units_append)
qed

lemma main_units: "main E s = (None, run_units E (units E s) s)"
proof -
  let ?s1 = "run_units E (forecast_units s (cities s)) s"
  have a: "run_forecast_etl E s = (None, ?s1)"
    using run_forecast_cities_units[of s s E "cities s"] by (simp add: run_forecast_etl_def)
  have k: "api_key s = api_key ?s1" "cities s = cities ?s1"
    using run_units_frame[of E _ s] by simp_all
  have b: "run_history_etl E ?s1 =
      (None, run_units E (concat (map (\<lambda>i. history_units s (days_ago E i) (cities s)) [1..<4])) ?s1)"
    unfolding run_history_etl_def using run_history_days_units[OF k] .
  show ?thesis
    unfolding main_def units_def run_units_append by (simp add: a b del: upt_Suc)
qed


section \<open>Two runs\<close>

lemma file_keys_mono:
  assumes "rows \<noteq> []"
  shows "set (file_keys rows) \<subseteq> set (file_keys (rows @ new))"
proof -
  obtain h rest where "rows = h # rest" using assms by (cases rows) auto
  then show ?thesis by (auto simp: file_keys_def DictReader_def)
qed

lemma ledger_soundI:
  assumes "\<And>p rows. files s p = Some rows \<Longrightarrow> has_header rows"
    and "\<And>c L. city_records s c = Some L \<Longrightarrow>
         \<exists>rows. files s (csv_path c) = Some rows \<and> rows \<noteq> [] \<and>
            (\<forall>k\<in>L. \<exists>d t. k = (JStr d, JStr t) \<and> (Some d, Some t) \<in> set (file_keys rows))"
  shows "ledger_sound s"
  using assms unfolding ledger_sound_def by blast

lemma ledger_sound_file: "ledger_sound s \<Longrightarrow> files s p = Some rows \<Longrightarrow> has_header rows"
  unfolding ledger_sound_def by blast

lemma ledger_sound_ledger:
  "ledger_sound s \<Longrightarrow> city_records s c = Some L \<Longrightarrow>
     \<exists>rows. files s (csv_path c) = Some rows \<and> rows \<noteq> [] \<and>
        (\<forall>k\<in>L. \<exists>d t. k = (JStr d, JStr t) \<and> (Some d, Some t) \<in> set (file_keys rows))"
  unfolding ledger_sound_def by blast

lemma ledger_sound_cong:
  "ledger_sound s \<Longrightarrow> files s' = files s \<Longrightarrow> city_records s' = city_records s \<Longrightarrow>
     ledger_sound s'"
  by (simp add: ledger_sound_def)

lemma ledger_sound_day:
  assumes inv: "ledger_sound s" and rd: "real_date day_data" and m: "mode \<noteq> []"
    and st: "extract_and_write_day E (csv_path city) city data mode day_data s = Inr s'"
  shows "ledger_sound s'"
  using st
proof (cases rule: extract_and_write_day_cases)
  case (skipped row key records)
  then show ?thesis by (intro ledger_sound_cong[OF inv]) simp_all
next
  case (written row key records)
  let ?T = "upper mode"
  let ?cells = "writerow E row"
  let ?p = "csv_path city"
  from real_date_built[OF rd written(1), of E] written(2) obtain d where
    d: "d \<noteq> []" "key = (JStr d, JStr ?T)" "length ?cells = 8" "?cells ! 0 = d" "?cells ! 7 = ?T"
    by auto
  from ledger_sound_ledger[OF inv written(3)] obtain rows where
    rows: "files s ?p = Some rows" "rows \<noteq> []"
    and sub: "\<forall>k\<in>records. \<exists>d t. k = (JStr d, JStr t) \<and> (Some d, Some t) \<in> set (file_keys rows)"
    by blast
  have hd: "hd rows = header"
    using ledger_sound_file[OF inv rows(1)] rows(2) by (simp add: has_header_def)
  have fs: "files s' = (files s)(?p \<mapsto> rows @ [?cells])"
    and cr: "city_records s' = (city_records s)(city \<mapsto> insert (JStr d, JStr ?T) records)"
    using written(6) d(2) rows(1) by simp_all
  have keys: "file_keys (rows @ [?cells]) = file_keys rows @ [(Some d, Some ?T)]"
    using file_keys_append_row[OF rows(2) hd d(3)] d(4,5) by simp
  show ?thesis
  proof (rule ledger_soundI)
    fix p rows' assume a: "files s' p = Some rows'"
    show "has_header rows'"
    proof (cases "p = ?p")
      case True
      with a fs have "rows' = rows @ [?cells]" by simp
      then show ?thesis using hd rows(2) by (simp add: has_header_def)
    next
      case False
      with a fs have "files s p = Some rows'" by simp
      then show ?thesis using ledger_sound_file[OF inv] by blast
    qed
  next
    fix c L assume c: "city_records s' c = Some L"
    show "\<exists>rows. files s' (csv_path c) = Some rows \<and> rows \<noteq> [] \<and>
            (\<forall>k\<in>L. \<exists>d t. k = (JStr d, JStr t) \<and> (Some d, Some t) \<in> set (file_keys rows))"
    proof (cases "c = city")
      case True
      then have L: "L = insert (JStr d, JStr ?T) records" using c cr by simp
      have "\<forall>k\<in>L. \<exists>d t. k = (JStr d, JStr t) \<and>
               (Some d, Some t) \<in> set (file_keys (rows @ [?cells]))"
        using sub by (auto simp: L keys)
      then show ?thesis using True fs by simp
    next
      case False
      then have cs: "city_records s c = Some L" using c cr by simp
      from ledger_sound_ledger[OF inv cs] obtain rc where
        rc: "files s (csv_path c) = Some rc" "rc \<noteq> []"
        "\<forall>k\<in>L. \<exists>d t. k = (JStr d, JStr t) \<and> (Some d, Some t) \<in> set (file_keys rc)" by blast
      show ?thesis
      proof (cases "csv_path c = ?p")
        case True
        then have "rc = rows" using rc(1) rows(1) by simp
        then have "\<forall>k\<in>L. \<exists>d t. k = (JStr d, JStr t) \<and>
               (Some d, Some t) \<in> set (file_keys (rows @ [?cells]))"
          using rc(3) file_keys_mono[OF rows(2), of "[?cells]"] by blast
        then show ?thesis using True fs by simp
      next
        case False
        then show ?thesis using rc fs by auto
      qed
    qed
  qed
qed

lemma ledger_sound_days:
  assumes "ledger_sound s" and "list_all real_date days" and "mode \<noteq> []"
    and "extract_and_write_days E (csv_path city) city data mode days s = (r, s')"
  shows "ledger_sound s'"
  using assms
proof (induction days arbitrary: s)
  case Nil
  then show ?case by simp
next
  case (Cons d days)
  show ?case
  proof (cases "extract_and_write_day E (csv_path city) city data mode d s")
    case (Inl e)
    with Cons.prems show ?thesis by simp
  next
    case (Inr s1)
    have "ledger_sound s1"
      using ledger_sound_day[OF Cons.prems(1) _ Cons.prems(3) Inr] Cons.prems(2) by simp
    moreover have "extract_and_write_days E (csv_path city) city data mode days s1 = (r, s')"
      using Cons.prems(4) Inr by simp
    ultimately show ?thesis using Cons.IH Cons.prems(2,3) by simp
  qed
qed

lemma ledger_sound_open:
  assumes inv: "ledger_sound s"
  shows "ledger_sound (load_city_records city (csv_path city) (snd (create_csv_for_city city s)))"
    (is "ledger_sound ?s2")
proof -
  let ?s1 = "snd (create_csv_for_city city s)"
  let ?p = "csv_path city"
  have one: "ledger_sound ?s1"
  proof (cases "case files s ?p of None \<Rightarrow> True | Some rows \<Rightarrow> rows = []")
    case False
    then have "files ?s1 = files s"
      by (auto simp: create_csv_for_city_files split: option.splits)
    then show ?thesis by (intro ledger_sound_cong[OF inv]) simp_all
  next
    case True
    then have f1: "files ?s1 = (files s)(?p \<mapsto> [header])"
      by (auto simp: create_csv_for_city_files split: option.splits)
    show ?thesis
    proof (rule ledger_soundI)
      fix p rows assume a: "files ?s1 p = Some rows"
      show "has_header rows"
      proof (cases "p = ?p")
        case True
        with a f1 have "rows = [header]" by simp
        then show ?thesis by (simp add: has_header_def)
      next
        case False
        with a f1 have "files s p = Some rows" by simp
        then show ?thesis using ledger_sound_file[OF inv] by blast
      qed
    next
      fix c L assume "city_records ?s1 c = Some L"
      then have cs: "city_records s c = Some L" by simp
      from ledger_sound_ledger[OF inv cs] obtain rows where
        r: "files s (csv_path c) = Some rows" "rows \<noteq> []"
        "\<forall>k\<in>L. \<exists>d t. k = (JStr d, JStr t) \<and> (Some d, Some t) \<in> set (file_keys rows)" by blast
      have "csv_path c \<noteq> ?p" using True r(1,2) by (auto split: option.splits)
      then have "files ?s1 (csv_path c) = Some rows" using f1 r(1) by simp
      with r show "\<exists>rows. files ?s1 (csv_path c) = Some rows \<and> rows \<noteq> [] \<and>
            (\<forall>k\<in>L. \<exists>d t. k = (JStr d, JStr t) \<and> (Some d, Some t) \<in> set (file_keys rows))"
        by blast
    qed
  qed
  show ?thesis
  proof (cases "city_records ?s1 city")
    case (Some L)
    then have "?s2 = ?s1" by (simp add: load_city_records_def)
    with one show ?thesis by simp
  next
    case None
    obtain rows where rows: "files ?s1 ?p = Some rows" "rows \<noteq> []"
      using create_csv_for_city_exists by blast
    have at: "city_records ?s2 city = Some (read_records (DictReader rows) {})"
      using None rows(1) by (simp add: load_city_records_at)
    show ?thesis
    proof (rule ledger_soundI)
      fix p rs assume "files ?s2 p = Some rs"
      then show "has_header rs" using ledger_sound_file[OF one, of p rs] by simp
    next
      fix c L assume c: "city_records ?s2 c = Some L"
      show "\<exists>rows. files ?s2 (csv_path c) = Some rows \<and> rows \<noteq> [] \<and>
            (\<forall>k\<in>L. \<exists>d t. k = (JStr d, JStr t) \<and> (Some d, Some t) \<in> set (file_keys rows))"
      proof (cases "c = city")
        case False
        then have "city_records ?s1 c = Some L" using c by simp
        from ledger_sound_ledger[OF one this] show ?thesis by simp
      next
        case True
        then have L: "L = read_records (DictReader rows) {}" using c at by simp
        have "\<forall>k\<in>L. \<exists>d t. k = (JStr d, JStr t) \<and> (Some d, Some t) \<in> set (file_keys rows)"
        proof
          fix k assume "k \<in> L"
          then obtain d t r where k: "k = (JStr d, JStr t)" "r \<in> set (DictReader rows)"
            "r ''Date'' = Some d" "r ''Type'' = Some t"
            unfolding L read_records_iff by blast
          have "(Some d, Some t) \<in> set (file_keys rows)"
            unfolding file_keys_def set_map using k(2,3,4) by (intro image_eqI[of _ _ r]) simp_all
          with k(1) show "\<exists>d t. k = (JStr d, JStr t) \<and> (Some d, Some t) \<in> set (file_keys rows)"
            by blast
        qed
        then show ?thesis using True rows by auto
      qed
    qed
  qed
qed

lemma ledger_sound_extract_and_write:
  assumes "ledger_sound s" and "real_dates data" and "mode \<noteq> []"
  shows "ledger_sound (extract_and_write E data mode s)"
proof (cases rule: extract_and_write_cases[of data E mode s])
  case (no_city e)
  then show ?thesis by (intro ledger_sound_cong[OF assms(1)]) simp_all
next
  case (no_days city e)
  then show ?thesis
    by (intro ledger_sound_cong[OF ledger_sound_open[OF assms(1)]]) simp_all
next
  case (days city days r s3)
  have "list_all real_date days" using assms(2) days(2) by (simp add: real_dates_def)
  from ledger_sound_days[OF ledger_sound_open[OF assms(1)] this assms(3) days(3)]
  have "ledger_sound s3" .
  then show ?thesis
    using days(4) by (cases r) (auto intro: ledger_sound_cong)
qed


lemma built_key_real:
  assumes "k \<in> set (built_keys data mode days)" and "list_all real_date days" and "mode \<noteq> []"
  shows "\<exists>d. k = (JStr d, JStr (upper mode)) \<and> d \<noteq> []"
  using assms
proof (induction days)
  case Nil
  then show ?case by simp
next
  case (Cons day days)
  show ?case
  proof (cases "build_row data mode day")
    case (Inl e)
    with Cons.prems(1) show ?thesis by simp
  next
    case (Inr row)
    from real_date_built[OF _ Inr, of undefined] Cons.prems(2) obtain d where
      d: "d \<noteq> []" "key_of_row row = Inr (JStr d, JStr (upper mode))" by auto
    with Cons.prems(1) Inr have "k = (JStr d, JStr (upper mode)) \<or> k \<in> set (built_keys data mode days)"
      by auto
    then show ?thesis using d(1) Cons.IH Cons.prems(2,3) by auto
  qed
qed

lemma built_keys_in_ledger:
  assumes "city_records s city = Some L" and "list_all real_date days"
    and "extract_and_write_days E fp city data mode days s = (r, s')"
  shows "\<exists>L'. city_records s' city = Some L' \<and> set (built_keys data mode days) \<subseteq> L'"
  using assms
proof (induction days arbitrary: s L)
  case Nil
  then show ?case by simp
next
  case (Cons day days)
  show ?case
  proof (cases "build_row data mode day")
    case (Inl e)
    then have "extract_and_write_day E fp city data mode day s = Inl e"
      by (simp add: extract_and_write_day_def)
    with Cons.prems(1,3) Inl show ?thesis by simp
  next
    case (Inr row)
    from real_date_built[OF _ Inr, of E] Cons.prems(2) obtain d where
      d: "d \<noteq> []" "key_of_row row = Inr (JStr d, JStr (upper mode))" by auto
    let ?k = "(JStr d, JStr (upper mode))"
    from extract_and_write_day_built[OF Inr d(2) Cons.prems(1), of E fp]
    obtain s1 L1 where s1: "extract_and_write_day E fp city data mode day s = Inr s1"
      "city_records s1 city = Some L1" "?k \<in> L1"
      by (cases "?k \<in> L") (auto simp: Cons.prems(1))
    have rest: "extract_and_write_days E fp city data mode days s1 = (r, s')"
      using Cons.prems(3) s1(1) by simp
    from Cons.IH[OF s1(2) _ rest] Cons.prems(2) obtain L' where
      L': "city_records s' city = Some L'" "set (built_keys data mode days) \<subseteq> L'" by auto
    have "L1 \<subseteq> L'" using extract_and_write_days_frame[OF rest] s1(2) L'(1) by auto
    then show ?thesis using L' s1(3) Inr d(2) by auto
  qed
qed

lemma covered_after:
  assumes "ledger_sound s" and "real_dates data" and "mode \<noteq> []"
  shows "covered (files (extract_and_write E data mode s)) data mode"
proof (cases rule: extract_and_write_cases[of data E mode s])
  case (no_city e)
  then show ?thesis by (simp add: covered_def)
next
  case (no_days city e)
  then show ?thesis using create_csv_for_city_exists[of city s] by (simp add: covered_def)
next
  case (days city days r s3)
  let ?s2 = "load_city_records city (csv_path city) (snd (create_csv_for_city city s))"
  have rd: "list_all real_date days" using assms(2) days(2) by (simp add: real_dates_def)
  have "\<exists>L2. city_records ?s2 city = Some L2"
    by (simp add: load_city_records_at split: option.split)
  then obtain L2 where L2: "city_records ?s2 city = Some L2" ..
  from built_keys_in_ledger[OF L2 rd days(3)] obtain L3 where
    L3: "city_records s3 city = Some L3" "set (built_keys data mode days) \<subseteq> L3" by blast
  have "ledger_sound s3"
    using ledger_sound_days[OF ledger_sound_open[OF assms(1)] rd assms(3) days(3)] .
  from ledger_sound_ledger[OF this L3(1)] obtain rows where
    rows: "files s3 (csv_path city) = Some rows" "rows \<noteq> []"
    "\<forall>k\<in>L3. \<exists>d t. k = (JStr d, JStr t) \<and> (Some d, Some t) \<in> set (file_keys rows)" by blast
  have f: "files (extract_and_write E data mode s) = files s3"
    using days(4) by (cases r) simp_all
  have "\<forall>k \<in> set (built_keys data mode days).
          \<exists>d t. k = (JStr d, JStr t) \<and> d \<noteq> [] \<and> t \<noteq> [] \<and> (Some d, Some t) \<in> set (file_keys rows)"
  proof
    fix k assume k: "k \<in> set (built_keys data mode days)"
    from built_key_real[OF k rd assms(3)] obtain d where
      d: "k = (JStr d, JStr (upper mode))" "d \<noteq> []" by blast
    have "k \<in> L3" using k L3(2) by blast
    with rows(3) d(1) have "(Some d, Some (upper mode)) \<in> set (file_keys rows)" by auto
    with d upper_nonempty[OF assms(3)]
    show "\<exists>d t. k = (JStr d, JStr t) \<and> d \<noteq> [] \<and> t \<noteq> [] \<and> (Some d, Some t) \<in> set (file_keys rows)"
      by blast
  qed
  then show ?thesis
    unfolding covered_def f using days(1,2) rows(1,2) by auto
qed

lemma covered_mono:
  assumes "grown F F'" and "covered F data mode"
  shows "covered F' data mode"
  unfolding covered_def
proof (intro allI impI)
  fix city assume c: "city_of data = Inr city"
  from assms(2) c obtain rows where
    rows: "F (csv_path city) = Some rows" "rows \<noteq> []"
    "\<forall>days. forecast_days_of data = Inr days \<longrightarrow>
              (\<forall>k \<in> set (built_keys data mode days).
                 \<exists>d t. k = (JStr d, JStr t) \<and> d \<noteq> [] \<and> t \<noteq> [] \<and>
                   (Some d, Some t) \<in> set (file_keys rows))"
    unfolding covered_def by blast
  from assms(1) rows(1) obtain new where new: "F' (csv_path city) = Some (rows @ new)"
    unfolding grown_def by blast
  have "\<forall>days. forecast_days_of data = Inr days \<longrightarrow>
              (\<forall>k \<in> set (built_keys data mode days).
                 \<exists>d t. k = (JStr d, JStr t) \<and> d \<noteq> [] \<and> t \<noteq> [] \<and>
                   (Some d, Some t) \<in> set (file_keys (rows @ new)))"
    using rows(3) file_keys_mono[OF rows(2), of new] by blast
  with new rows(2)
  show "\<exists>rows. F' (csv_path city) = Some rows \<and> rows \<noteq> [] \<and>
           (\<forall>days. forecast_days_of data = Inr days \<longrightarrow>
              (\<forall>k \<in> set (built_keys data mode days).
                 \<exists>d t. k = (JStr d, JStr t) \<and> d \<noteq> [] \<and> t \<noteq> [] \<and>
                   (Some d, Some t) \<in> set (file_keys rows)))"
    by (intro exI[of _ "rows @ new"]) simp
qed

text \<open>The first run.\<close>

lemma first_run_units:
  assumes "ledger_sound s" and "\<forall>url n. real_dates (payload_of (net E url n))"
    and "list_all (\<lambda>u. fst (snd u) \<noteq> []) us"
  shows "ledger_sound (run_units E us s) \<and> grown (files s) (files (run_units E us s)) \<and>
         list_all (\<lambda>c. truthy (fst c) \<longrightarrow> covered (files (run_units E us s)) (fst c) (snd c))
           (unit_calls E (requests_made s) us)"
  using assms(1,3)
proof (induction us arbitrary: s)
  case Nil
  then show ?case by simp
next
  case (Cons u us)
  obtain url mode msg where u: "u = (url, mode, msg)" by (cases u) auto
  let ?data = "payload_of (net E url (requests_made s))"
  let ?sf = "snd (fetch_data E url (logging msg s))"
  let ?s1 = "if truthy ?data then extract_and_write E ?data mode ?sf else ?sf"
  have m: "mode \<noteq> []" using Cons.prems(2) u by simp
  have rd: "real_dates ?data" using assms(2) by blast
  have sf: "ledger_sound ?sf"
    by (intro ledger_sound_cong[OF Cons.prems(1)]) (simp_all add: fetch_data_frame)
  have s1: "ledger_sound ?s1"
    using sf ledger_sound_extract_and_write[OF sf rd m, of E] by simp
  have g1: "grown (files s) (files ?s1)"
    using extract_and_write_grown[of ?sf E ?data mode] by (simp add: fetch_data_frame)
  have c1: "truthy ?data \<longrightarrow> covered (files ?s1) ?data mode"
    using covered_after[OF sf rd m, of E] by simp
  have n1: "requests_made ?s1 = Suc (requests_made s)"
    by (simp add: extract_and_write_frame fetch_data_frame)
  have r: "run_units E (u # us) s = run_units E us ?s1"
    unfolding u run_units_Cons ..
  from Cons.IH[OF s1] Cons.prems(2) have
    ih: "ledger_sound (run_units E us ?s1)" "grown (files ?s1) (files (run_units E us ?s1))"
      "list_all (\<lambda>c. truthy (fst c) \<longrightarrow> covered (files (run_units E us ?s1)) (fst c) (snd c))
           (unit_calls E (Suc (requests_made s)) us)"
    unfolding n1 by simp_all
  have "truthy ?data \<longrightarrow> covered (files (run_units E us ?s1)) ?data mode"
    using c1 covered_mono[OF ih(2)] by blast
  moreover have uc: "unit_calls E (requests_made s) (u # us) =
      (?data, mode) # unit_calls E (Suc (requests_made s)) us" by (simp add: u)
  ultimately show ?case
    unfolding r uc using ih grown_trans[OF g1 ih(2)] by simp
qed

text \<open>The second run.\<close>

lemma skip_all_days:
  assumes "city_records s city = Some L"
    and "\<forall>k \<in> set (built_keys data mode days). hashable_key k \<and> canon_key k \<in> L"
  shows "\<exists>r s'. extract_and_write_days E fp city data mode days s = (r, s') \<and>
           files s' = files s \<and> city_records s' = city_records s"
  using assms
proof (induction days arbitrary: s)
  case Nil
  then show ?case by simp
next
  case (Cons day days)
  show ?case
  proof (cases "build_row data mode day")
    case (Inl e)
    then have "extract_and_write_day E fp city data mode day s = Inl e"
      by (simp add: extract_and_write_day_def)
    then show ?thesis by simp
  next
    case row: (Inr row)
    show ?thesis
    proof (cases "key_of_row row")
      case (Inl e)
      then have "extract_and_write_day E fp city data mode day s = Inl e"
        by (simp add: extract_and_write_day_def row)
      then show ?thesis by simp
    next
      case (Inr key)
      have k: "hashable_key key" "canon_key key \<in> L"
        and rest: "\<forall>k \<in> set (built_keys data mode days). hashable_key k \<and> canon_key k \<in> L"
        using Cons.prems(2) row Inr by simp_all
      let ?s1 = "logging (SkippedDuplicate city (fst key) (upper mode)) s"
      have st: "extract_and_write_day E fp city data mode day s = Inr ?s1"
        using extract_and_write_day_built[OF row Inr Cons.prems(1), of E fp] k by simp
      have "city_records ?s1 city = Some L" using Cons.prems(1) by simp
      from Cons.IH[OF this rest] show ?thesis by (simp add: st)
    qed
  qed
qed

lemma ledger_complete_cong:
  "ledger_complete F s \<Longrightarrow> files s' = files s \<Longrightarrow> city_records s' = city_records s \<Longrightarrow>
     ledger_complete F s'"
  by (simp add: ledger_complete_def)

lemma ledger_complete_open:
  assumes inv: "ledger_complete F s" and rows: "F (csv_path city) = Some rows" "rows \<noteq> []"
  shows "ledger_complete F
           (load_city_records city (csv_path city) (snd (create_csv_for_city city s)))"
    (is "ledger_complete F ?s2")
proof -
  let ?s1 = "snd (create_csv_for_city city s)"
  have F: "files s = F" using inv by (simp add: ledger_complete_def)
  have f1: "files ?s1 = F" using rows F by (simp add: create_csv_for_city_files)
  have one: "ledger_complete F ?s1"
    by (intro ledger_complete_cong[OF inv]) (simp_all add: f1 F)
  show ?thesis
  proof (cases "city_records ?s1 city")
    case (Some L)
    then have "?s2 = ?s1" by (simp add: load_city_records_def)
    with one show ?thesis by simp
  next
    case None
    have at: "city_records ?s2 city = Some (read_records (DictReader rows) {})"
      using None rows(1) f1 by (simp add: load_city_records_at)
    show ?thesis
      unfolding ledger_complete_def
    proof (intro conjI allI impI)
      show "files ?s2 = F" using f1 by simp
    next
      fix c L assume c: "city_records ?s2 c = Some L"
      show "\<exists>rows. F (csv_path c) = Some rows \<and>
            (\<forall>d t. (Some d, Some t) \<in> set (file_keys rows) \<and> d \<noteq> [] \<and> t \<noteq> []
                \<longrightarrow> (JStr d, JStr t) \<in> L)"
      proof (cases "c = city")
        case False
        then have "city_records ?s1 c = Some L" using c by simp
        with one show ?thesis unfolding ledger_complete_def by blast
      next
        case True
        then have L: "L = read_records (DictReader rows) {}" using c at by simp
        have "\<forall>d t. (Some d, Some t) \<in> set (file_keys rows) \<and> d \<noteq> [] \<and> t \<noteq> []
                \<longrightarrow> (JStr d, JStr t) \<in> L"
          unfolding L read_records_iff by (auto simp: file_keys_def)
        then show ?thesis using True rows(1) by auto
      qed
    qed
  qed
qed

lemma coveredD:
  assumes "covered F data mode" and "city_of data = Inr city"
  shows "\<exists>rows. F (csv_path city) = Some rows \<and> rows \<noteq> [] \<and>
           (\<forall>days. forecast_days_of data = Inr days \<longrightarrow>
              (\<forall>k \<in> set (built_keys data mode days).
                 \<exists>d t. k = (JStr d, JStr t) \<and> d \<noteq> [] \<and> t \<noteq> [] \<and>
                   (Some d, Some t) \<in> set (file_keys rows)))"
  using assms unfolding covered_def by simp

lemma second_run_call:
  assumes "ledger_complete F s" and "covered F data mode"
  shows "ledger_complete F (extract_and_write E data mode s)"
proof (cases rule: extract_and_write_cases[of data E mode s])
  case (no_city e)
  show ?thesis unfolding no_city(2) by (rule ledger_complete_cong[OF assms(1)]) simp_all
next
  case city: (no_days city e)
  from coveredD[OF assms(2) city(1)] obtain rows where
    rows: "F (csv_path city) = Some rows" "rows \<noteq> []" by (elim exE conjE)
  have two: "ledger_complete F
     (load_city_records city (csv_path city) (snd (create_csv_for_city city s)))"
    using ledger_complete_open[OF assms(1) rows] .
  show ?thesis unfolding city(3) by (rule ledger_complete_cong[OF two]) simp_all
next
  case (days city days r s3)
  let ?s2 = "load_city_records city (csv_path city) (snd (create_csv_for_city city s))"
  from coveredD[OF assms(2) days(1)] obtain rows where
    rows: "F (csv_path city) = Some rows" "rows \<noteq> []"
    and all: "\<forall>days. forecast_days_of data = Inr days \<longrightarrow>
              (\<forall>k \<in> set (built_keys data mode days).
                 \<exists>d t. k = (JStr d, JStr t) \<and> d \<noteq> [] \<and> t \<noteq> [] \<and>
                   (Some d, Some t) \<in> set (file_keys rows))" by (elim exE conjE)
  have keys: "\<forall>k \<in> set (built_keys data mode days).
                 \<exists>d t. k = (JStr d, JStr t) \<and> d \<noteq> [] \<and> t \<noteq> [] \<and>
                   (Some d, Some t) \<in> set (file_keys rows)"
    using all days(2) by (elim allE[of _ days] impE) assumption+
  have two: "ledger_complete F ?s2" using ledger_complete_open[OF assms(1) rows] .
  have "\<exists>L2. city_records ?s2 city = Some L2"
    by (simp add: load_city_records_at split: option.split)
  then obtain L2 where L2: "city_records ?s2 city = Some L2" ..
  have "\<forall>c L. city_records ?s2 c = Some L \<longrightarrow>
         (\<exists>rows. F (csv_path c) = Some rows \<and>
            (\<forall>d t. (Some d, Some t) \<in> set (file_keys rows) \<and> d \<noteq> [] \<and> t \<noteq> []
                \<longrightarrow> (JStr d, JStr t) \<in> L))"
    using two unfolding ledger_complete_def by (elim conjE)
  then have "\<exists>rows'. F (csv_path city) = Some rows' \<and>
      (\<forall>d t. (Some d, Some t) \<in> set (file_keys rows') \<and> d \<noteq> [] \<and> t \<noteq> []
          \<longrightarrow> (JStr d, JStr t) \<in> L2)"
    using L2 by (elim allE[of _ city] allE[of _ L2] impE) assumption+
  then obtain rows' where r': "F (csv_path city) = Some rows'"
    and c': "\<forall>d t. (Some d, Some t) \<in> set (file_keys rows') \<and> d \<noteq> [] \<and> t \<noteq> []
          \<longrightarrow> (JStr d, JStr t) \<in> L2" by (elim exE conjE)
  have "rows' = rows" using r' rows(1) by simp
  with c' have comp:
    "\<And>d t. (Some d, Some t) \<in> set (file_keys rows) \<Longrightarrow> d \<noteq> [] \<Longrightarrow> t \<noteq> []
       \<Longrightarrow> (JStr d, JStr t) \<in> L2"
    by simp
  have "\<forall>k \<in> set (built_keys data mode days). hashable_key k \<and> canon_key k \<in> L2"
  proof
    fix k assume "k \<in> set (built_keys data mode days)"
    with keys have "\<exists>d t. k = (JStr d, JStr t) \<and> d \<noteq> [] \<and> t \<noteq> [] \<and>
                   (Some d, Some t) \<in> set (file_keys rows)" by (rule bspec)
    then obtain d t where k: "k = (JStr d, JStr t)" "d \<noteq> []" "t \<noteq> []"
      "(Some d, Some t) \<in> set (file_keys rows)" by (elim exE conjE)
    from comp[OF k(4,2,3)] show "hashable_key k \<and> canon_key k \<in> L2" by (simp add: k(1))
  qed
  from skip_all_days[OF L2 this, of E "csv_path city"] obtain r' s' where
    l: "extract_and_write_days E (csv_path city) city data mode days ?s2 = (r', s')"
    and f: "files s' = files ?s2" and c: "city_records s' = city_records ?s2"
    by (elim exE conjE)
  have "s' = s3" using l days(3) by simp
  then have same: "files s3 = files ?s2" "city_records s3 = city_records ?s2"
    using f c by simp_all
  have three: "ledger_complete F s3" using ledger_complete_cong[OF two same] .
  show ?thesis
  proof (cases r)
    case None
    with days(4) three show ?thesis by simp
  next
    case (Some e)
    with days(4) have eq: "extract_and_write E data mode s = extract_failed mode e s3" by simp
    show ?thesis unfolding eq by (rule ledger_complete_cong[OF three]) simp_all
  qed
qed

lemma second_run_units:
  assumes "ledger_complete F s"
    and "list_all (\<lambda>c. truthy (fst c) \<longrightarrow> covered F (fst c) (snd c))
           (unit_calls E (requests_made s) us)"
  shows "ledger_complete F (run_units E us s)"
  using assms
proof (induction us arbitrary: s)
  case Nil
  then show ?case by simp
next
  case (Cons u us)
  obtain url mode msg where u: "u = (url, mode, msg)" by (cases u) auto
  let ?data = "payload_of (net E url (requests_made s))"
  let ?sf = "snd (fetch_data E url (logging msg s))"
  let ?s1 = "if truthy ?data then extract_and_write E ?data mode ?sf else ?sf"
  have uc: "unit_calls E (requests_made s) (u # us) =
      (?data, mode) # unit_calls E (Suc (requests_made s)) us" by (simp add: u)
  have sf: "ledger_complete F ?sf"
    by (intro ledger_complete_cong[OF Cons.prems(1)]) (simp_all add: fetch_data_frame)
  have s1: "ledger_complete F ?s1"
    using sf second_run_call[OF sf, of ?data mode E] Cons.prems(2) unfolding uc by simp
  have n1: "requests_made ?s1 = Suc (requests_made s)"
    by (simp add: extract_and_write_frame fetch_data_frame)
  have r: "run_units E (u # us) s = run_units E us ?s1"
    unfolding u run_units_Cons ..
  have "list_all (\<lambda>c. truthy (fst c) \<longrightarrow> covered F (fst c) (snd c))
           (unit_calls E (requests_made ?s1) us)"
    using Cons.prems(2) unfolding uc n1 by simp
  from Cons.IH[OF s1 this] show ?case unfolding r .
qed

lemma units_modes: "list_all (\<lambda>u. fst (snd u) \<noteq> []) (units E s)"
  by (auto simp: units_def forecast_units_def history_units_def list_all_iff)

lemma sample_history_dates [simp]:
  "sample_days_ago (Suc 0) = ''2024-01-09''" "sample_days_ago 2 = ''2024-01-08''"
  "sample_days_ago 3 = ''2024-01-07''"
  by (simp_all add: sample_days_ago_def)

text \<open>
  C4, as the code has it. When the files found by the first run start with the header
  and every payload of the API carries dates that are non-empty strings, a second run of
  \<^verbatim>\<open>main\<close> by a new extractor, on the files the first run left and against the same
  replies, leaves every file as it was: it appends no row.
\<close>

theorem second_run_appends_nothing:
  assumes "\<forall>p rows. fs p = Some rows \<longrightarrow> has_header rows"
    and "\<forall>url n. real_dates (payload_of (net E url n))"
  shows "files (snd (main E (init key cs (files (snd (main E (init key cs fs)))))))
           = files (snd (main E (init key cs fs)))"
proof -
  let ?s0 = "init key cs fs"
  let ?us = "units E ?s0"
  let ?F = "files (run_units E ?us ?s0)"
  let ?t0 = "init key cs ?F"
  have "ledger_sound ?s0" using assms(1) by (simp add: ledger_sound_def init_def)
  from first_run_units[OF this assms(2) units_modes[of E ?s0]]
  have cov: "list_all (\<lambda>c. truthy (fst c) \<longrightarrow> covered ?F (fst c) (snd c)) (unit_calls E 0 ?us)"
    by (simp add: init_def)
  have "ledger_complete ?F ?t0" by (simp add: ledger_complete_def init_def)
  moreover have "requests_made ?t0 = 0" by (simp add: init_def)
  ultimately have "ledger_complete ?F (run_units E ?us ?t0)"
    using second_run_units[of ?F ?t0 E ?us] cov by simp
  moreover have "units E ?t0 = ?us" by (intro units_cong) (simp_all add: init_def)
  ultimately show ?thesis
    by (simp add: main_units ledger_complete_def)
qed

theorem second_run_appends_nothing_witness:
  "has_header dated_file \<and> real_dates (london three_days) \<and>
   files (snd (main steady_env (init ''KEY'' [''London''] [london_csv \<mapsto> dated_file]))) london_csv
     = Some [header, sample_row ''2024-01-10'' ''FORECAST'', sample_row ''2024-01-11'' ''FORECAST'',
             sample_row ''2024-01-12'' ''FORECAST'', sample_row ''2024-01-10'' ''HISTORY'',
             sample_row ''2024-01-11'' ''HISTORY'', sample_row ''2024-01-12'' ''HISTORY''] \<and>
   files (snd (main steady_env (init ''KEY'' [''London'']
       (files (snd (main steady_env (init ''KEY'' [''London''] [london_csv \<mapsto> dated_file])))))))
     = files (snd (main steady_env (init ''KEY'' [''London''] [london_csv \<mapsto> dated_file])))"
proof -
  have h: "has_header dated_file" by (simp add: has_header_def dated_file_def)
  have a: "\<forall>p rows. [london_csv \<mapsto> dated_file] p = Some rows \<longrightarrow> has_header rows"
    using h by (simp split: if_splits)
  have d: "real_dates (london three_days)"
    by (simp add: real_dates_def real_date_def forecast_days_of_def london_def three_days_def
        sample_day_def)
  have b: "\<forall>url n. real_dates (payload_of (net steady_env url n))"
    using d by (simp add: steady_env_def payload_of_def)
  have r: "files (snd (main steady_env (init ''KEY'' [''London''] [london_csv \<mapsto> dated_file])))
       london_csv
     = Some [header, sample_row ''2024-01-10'' ''FORECAST'', sample_row ''2024-01-11'' ''FORECAST'',
             sample_row ''2024-01-12'' ''FORECAST'', sample_row ''2024-01-10'' ''HISTORY'',
             sample_row ''2024-01-11'' ''HISTORY'', sample_row ''2024-01-12'' ''HISTORY'']"
    by (simp add: dated_file_def steady_env_def eval_defs)
  have e: "files (snd (main steady_env (init ''KEY'' [''London'']
       (files (snd (main steady_env (init ''KEY'' [''London''] [london_csv \<mapsto> dated_file])))))))
     = files (snd (main steady_env (init ''KEY'' [''London''] [london_csv \<mapsto> dated_file])))"
    using second_run_appends_nothing[OF a b, of "''KEY''" "[''London'']"] .
  show ?thesis using h d r e by (intro conjI)
qed

text \<open>
  C4 as it is stated, for every set of API responses, fails when a payload carries an
  empty date: the first run writes the row, the ledger of the second run leaves it out
  when it reads the file (line 87), and the second run writes the row again.
\<close>

theorem second_run_repeats_undated_rows:
  "files (snd (main undated_env (init ''KEY'' [''London''] Map.empty))) london_csv
     = Some [header, sample_row [] ''FORECAST'', sample_row [] ''HISTORY''] \<and>
   files (snd (main undated_env (init ''KEY'' [''London'']
       (files (snd (main undated_env (init ''KEY'' [''London''] Map.empty))))))) london_csv
     = Some [header, sample_row [] ''FORECAST'', sample_row [] ''HISTORY'',
             sample_row [] ''FORECAST'', sample_row [] ''HISTORY'']"
proof -
  have one: "files (snd (main undated_env (init ''KEY'' [''London''] Map.empty)))
     = [london_csv \<mapsto> [header, sample_row [] ''FORECAST'', sample_row [] ''HISTORY'']]"
    by (simp add: undated_env_def eval_defs)
  have two: "files (snd (main undated_env (init ''KEY'' [''London'']
       [london_csv \<mapsto> [header, sample_row [] ''FORECAST'', sample_row [] ''HISTORY'']]))) london_csv
     = Some [header, sample_row [] ''FORECAST'', sample_row [] ''HISTORY'',
             sample_row [] ''FORECAST'', sample_row [] ''HISTORY'']"
    by (simp add: undated_env_def eval_defs)
  show ?thesis unfolding one using two by (simp add: london_csv_def)
qed

end
